theory Spec2Isabelle
  imports Complex_Main "HOL-Library.Sublist"
begin

section \<open>Text and cells\<close>

text \<open>
  The program is \<^verbatim>\<open>src/app.py\<close>. Python text is modelled as \<^typ>\<open>string\<close>, one
  \<^typ>\<open>char\<close> per code point: the texts of the model are those of the code points 0
  to 255 (Latin-1), and the classifications below read a character through its code. A
  cell of the uploaded table is either text or missing (the \<^verbatim>\<open>NaN\<close> that
  \<^verbatim>\<open>pandas\<close> puts in an empty cell).
\<close>

datatype cell = Missing | Text string

datatype py_exn =
    AttributeError
  | ValueError
  | KeyError "string list"
  | FileNotFoundError
  | PermissionError
  | JSONDecodeError
  | StreamlitAPIException
  | LayoutError

text \<open>\<^verbatim>\<open>pd.isna(x)\<close>, \<^verbatim>\<open>str(x)\<close> and the rendering of \<^verbatim>\<open>x\<close> in an f-string.\<close>

definition pd_isna :: "cell \<Rightarrow> bool" where
  "pd_isna x = (case x of Missing \<Rightarrow> True | Text s \<Rightarrow> False)"

definition py_str :: "cell \<Rightarrow> string" where
  "py_str x = (case x of Missing \<Rightarrow> ''nan'' | Text s \<Rightarrow> s)"

text \<open>
  \<^verbatim>\<open>str.isspace\<close> on one character, which is also the class \<^verbatim>\<open>\s\<close> of \<^verbatim>\<open>re\<close>:
  tab, LF, VT, FF, CR (9-13), FS, GS, RS, US, space (28-32), NEL (133) and the no-break
  space (160).
\<close>

definition py_isspace :: "char \<Rightarrow> bool" where
  "py_isspace c =
     (let n = (of_char c :: nat)
      in (9 \<le> n \<and> n \<le> 13) \<or> (28 \<le> n \<and> n \<le> 32) \<or> n = 133 \<or> n = 160)"

text \<open>The class \<^verbatim>\<open>\d\<close> of \<^verbatim>\<open>re\<close>: the decimal digits, which in Latin-1 are 0 to 9.\<close>

definition is_digit :: "char \<Rightarrow> bool" where
  "is_digit c = (let n = (of_char c :: nat) in 48 \<le> n \<and> n \<le> 57)"

text \<open>
  \<^verbatim>\<open>str.lower\<close> on one character: the upper-case letters are A to Z (65-90) and the
  Latin-1 letters 192 to 222 without the multiplication sign (215); each has its
  lower-case letter 32 codes higher.
\<close>

definition lower_char :: "char \<Rightarrow> char" where
  "lower_char c =
     (let n = (of_char c :: nat)
      in if (65 \<le> n \<and> n \<le> 90) \<or> (192 \<le> n \<and> n \<le> 222 \<and> n \<noteq> 215)
         then char_of (n + 32) else c)"

definition py_lower :: "string \<Rightarrow> string" where
  "py_lower s = map lower_char s"

text \<open>
  The title case of one character, which \<^verbatim>\<open>str.capitalize\<close> gives the first
  character: the lower-case letters a to z (97-122) and 224 to 254 without the division
  sign (247) have their upper-case letter 32 codes lower, and the sharp s (223) becomes
  \<^verbatim>\<open>Ss\<close>. The title-case forms of the micro sign (181) and of the y with diaeresis
  (255) are the characters U+039C and U+0178, which are not among the code points of the
  model: the model keeps these two letters as they are.
\<close>

definition title_char :: "char \<Rightarrow> string" where
  "title_char c =
     (let n = (of_char c :: nat)
      in if (97 \<le> n \<and> n \<le> 122) \<or> (224 \<le> n \<and> n \<le> 254 \<and> n \<noteq> 247)
         then [char_of (n - 32)]
         else if n = 223 then ''Ss'' else [c])"

text \<open>\<^verbatim>\<open>str.capitalize\<close>: the first character in title case, the rest lower-cased.\<close>

definition py_capitalize :: "string \<Rightarrow> string" where
  "py_capitalize s = (case s of [] \<Rightarrow> [] | c # cs \<Rightarrow> title_char c @ map lower_char cs)"

text \<open>\<^verbatim>\<open>str.strip()\<close> and \<^verbatim>\<open>str.lstrip(chars)\<close> for a one-character set.\<close>

definition py_lstrip :: "string \<Rightarrow> string" where
  "py_lstrip s = dropWhile py_isspace s"

definition py_rstrip :: "string \<Rightarrow> string" where
  "py_rstrip s = rev (dropWhile py_isspace (rev s))"

definition py_strip :: "string \<Rightarrow> string" where
  "py_strip s = py_rstrip (py_lstrip s)"

definition py_lstrip_char :: "char \<Rightarrow> string \<Rightarrow> string" where
  "py_lstrip_char z s = dropWhile (\<lambda>c. c = z) s"

text \<open>\<^verbatim>\<open>str.split()\<close> with no argument: the maximal runs of non-whitespace.\<close>

function py_split :: "string \<Rightarrow> string list" where
  "py_split s =
     (case dropWhile py_isspace s of
        [] \<Rightarrow> []
      | c # cs \<Rightarrow> (c # takeWhile (\<lambda>x. \<not> py_isspace x) cs)
                  # py_split (dropWhile (\<lambda>x. \<not> py_isspace x) cs))"
  by pat_completeness auto
termination
proof (relation "measure length")
  fix s :: string and c cs
  assume h: "dropWhile py_isspace s = c # cs"
  have "length (dropWhile (\<lambda>x. \<not> py_isspace x) cs) \<le> length cs"
    by (rule length_dropWhile_le)
  moreover have "length (c # cs) \<le> length s"
    using length_dropWhile_le [of py_isspace s] h by simp
  ultimately show "(dropWhile (\<lambda>x. \<not> py_isspace x) cs, s) \<in> measure length"
    by simp
qed simp

declare py_split.simps [simp del]

text \<open>\<^verbatim>\<open>str.split(sep)\<close> for a one-character separator: empty segments are kept.\<close>

function py_split_on :: "char \<Rightarrow> string \<Rightarrow> string list" where
  "py_split_on sep s =
     (case dropWhile (\<lambda>x. x \<noteq> sep) s of
        [] \<Rightarrow> [s]
      | c # cs \<Rightarrow> takeWhile (\<lambda>x. x \<noteq> sep) s # py_split_on sep cs)"
  by pat_completeness auto
termination
proof (relation "measure (\<lambda>(sep, s). length s)")
  fix sep :: char and s :: string and c cs
  assume h: "dropWhile (\<lambda>x. x \<noteq> sep) s = c # cs"
  have "length (c # cs) \<le> length s"
    using length_dropWhile_le [of "\<lambda>x. x \<noteq> sep" s] h by simp
  then show "((sep, cs), (sep, s)) \<in> measure (\<lambda>(sep, s). length s)"
    by simp
qed simp

declare py_split_on.simps [simp del]

text \<open>\<^verbatim>\<open>sep.join(xs)\<close>.\<close>

fun py_join :: "string \<Rightarrow> string list \<Rightarrow> string" where
  "py_join sep [] = []"
| "py_join sep [x] = x"
| "py_join sep (x # y # ys) = x @ sep @ py_join sep (y # ys)"

text \<open>\<^verbatim>\<open>re.findall(r'\d+', s)\<close>: the maximal runs of digits, left to right.\<close>

function findall_digits :: "string \<Rightarrow> string list" where
  "findall_digits s =
     (case dropWhile (\<lambda>x. \<not> is_digit x) s of
        [] \<Rightarrow> []
      | c # cs \<Rightarrow> (c # takeWhile is_digit cs) # findall_digits (dropWhile is_digit cs))"
  by pat_completeness auto
termination
proof (relation "measure length")
  fix s :: string and c cs
  assume h: "dropWhile (\<lambda>x. \<not> is_digit x) s = c # cs"
  have "length (dropWhile is_digit cs) \<le> length cs"
    by (rule length_dropWhile_le)
  moreover have "length (c # cs) \<le> length s"
    using length_dropWhile_le [of "\<lambda>x. \<not> is_digit x" s] h by simp
  ultimately show "(dropWhile is_digit cs, s) \<in> measure length"
    by simp
qed simp

declare findall_digits.simps [simp del]

section \<open>Field normalizers\<close>

type_synonym 'a outcome = "py_exn + 'a"

text \<open>
  \<^verbatim>\<open>capitalize_customer_name\<close> (lines 140-165). The test for the particles
  \<^verbatim>\<open>mc, mac, o', de, van, von, la, le\<close> is kept: both of its branches call
  \<^verbatim>\<open>word.capitalize()\<close>.
\<close>

definition name_particles :: "string list" where
  "name_particles = [''mc'', ''mac'', [CHR ''o'', CHR 0x27], ''de'', ''van'', ''von'', ''la'', ''le'']"

fun capitalize_words :: "string list \<Rightarrow> string list" where
  "capitalize_words [] = []"
| "capitalize_words (word # words) =
     (if word \<noteq> [] then
        (if py_lower word \<in> set name_particles
         then py_capitalize word # capitalize_words words
         else py_capitalize word # capitalize_words words)
      else capitalize_words words)"

definition capitalize_customer_name :: "cell \<Rightarrow> string outcome" where
  "capitalize_customer_name name =
     (if pd_isna name \<or> name = Text [] then Inr ''Guest''
      else let name1 = py_strip (py_str name) in
        if py_lower name1 = ''walk in'' then Inr ''Walk In''
        else Inr (py_join '' '' (capitalize_words (py_split name1))))"

text \<open>\<^verbatim>\<open>extract_table_numbers\<close> (lines 167-186).\<close>

fun clean_tables :: "string list \<Rightarrow> string list" where
  "clean_tables [] = []"
| "clean_tables (table # tables) =
     (case findall_digits (py_strip table) of
        [] \<Rightarrow> clean_tables tables
      | n # ns \<Rightarrow> n # clean_tables tables)"

definition extract_table_numbers :: "cell \<Rightarrow> string outcome" where
  "extract_table_numbers table_string =
     (if pd_isna table_string \<or> table_string = Text [] then Inr ''TBD''
      else let cleaned_tables = clean_tables (py_split_on CHR '','' (py_str table_string)) in
        if cleaned_tables \<noteq> [] then Inr (py_join '','' cleaned_tables)
        else Inr ''TBD'')"

section \<open>Time parsing and the time range\<close>

text \<open>
  \<^verbatim>\<open>datetime.strptime\<close> turns the format into a regular expression, matches it at the
  start of the text with the backtracking matcher of \<^verbatim>\<open>re\<close> (case ignored), and
  raises \<^verbatim>\<open>ValueError\<close> when nothing matches or when the match leaves text over. A
  matcher is modelled as the list of its ways to match a prefix, best first, each with
  the value read and the text left; the match \<^verbatim>\<open>re\<close> finds is the head of the list.
  The directives are those of CPython's \<^verbatim>\<open>_strptime\<close>:
  \<^verbatim>\<open>%I\<close> is \<^verbatim>\<open>1[0-2]|0[1-9]|[1-9]\<close>, \<^verbatim>\<open>%H\<close> is \<^verbatim>\<open>2[0-3]|[0-1]\d|\d\<close>,
  \<^verbatim>\<open>%M\<close> is \<^verbatim>\<open>[0-5]\d|\d\<close>, \<^verbatim>\<open>%p\<close> is \<^verbatim>\<open>am|pm\<close>, and a blank in the format
  is \<^verbatim>\<open>\s+\<close>.
\<close>

type_synonym 'a rx = "string \<Rightarrow> ('a \<times> string) list"

definition digit_val :: "char \<Rightarrow> nat" where
  "digit_val c = of_char c - 48"

definition rx_digit :: "nat \<Rightarrow> nat \<Rightarrow> nat rx" where
  "rx_digit lo hi s =
     (case s of
        [] \<Rightarrow> []
      | c # cs \<Rightarrow> if is_digit c \<and> lo \<le> digit_val c \<and> digit_val c \<le> hi
                  then [(digit_val c, cs)] else [])"

definition rx_bind :: "'a rx \<Rightarrow> ('a \<Rightarrow> 'b rx) \<Rightarrow> 'b rx" where
  "rx_bind p f s = concat (map (\<lambda>(x, r). f x r) (p s))"

definition rx_return :: "'a \<Rightarrow> 'a rx" where
  "rx_return x s = [(x, s)]"

definition rx_alt :: "'a rx \<Rightarrow> 'a rx \<Rightarrow> 'a rx" where
  "rx_alt p q s = p s @ q s"

definition rx_two :: "nat rx \<Rightarrow> nat rx \<Rightarrow> nat rx" where
  "rx_two a b = rx_bind a (\<lambda>x. rx_bind b (\<lambda>y. rx_return (10 * x + y)))"

definition rx_I :: "nat rx" where
  "rx_I = rx_alt (rx_two (rx_digit 1 1) (rx_digit 0 2))
            (rx_alt (rx_two (rx_digit 0 0) (rx_digit 1 9)) (rx_digit 1 9))"

definition rx_H :: "nat rx" where
  "rx_H = rx_alt (rx_two (rx_digit 2 2) (rx_digit 0 3))
            (rx_alt (rx_two (rx_digit 0 1) (rx_digit 0 9)) (rx_digit 0 9))"

definition rx_M :: "nat rx" where
  "rx_M = rx_alt (rx_two (rx_digit 0 5) (rx_digit 0 9)) (rx_digit 0 9)"

definition rx_lit :: "char \<Rightarrow> unit rx" where
  "rx_lit l s =
     (case s of
        [] \<Rightarrow> []
      | c # cs \<Rightarrow> if lower_char c = lower_char l then [((), cs)] else [])"

text \<open>\<^verbatim>\<open>%p\<close>: the value is \<^term>\<open>True\<close> for \<^verbatim>\<open>pm\<close>.\<close>

definition rx_p :: "bool rx" where
  "rx_p = rx_alt
     (rx_bind (rx_lit CHR ''a'') (\<lambda>_. rx_bind (rx_lit CHR ''m'') (\<lambda>_. rx_return False)))
     (rx_bind (rx_lit CHR ''p'') (\<lambda>_. rx_bind (rx_lit CHR ''m'') (\<lambda>_. rx_return True)))"

text \<open>\<^verbatim>\<open>\s+\<close>, greedy: the longest run of whitespace first, then the shorter ones.\<close>

fun ws_plus :: "string \<Rightarrow> string list" where
  "ws_plus [] = []"
| "ws_plus (c # cs) = (if py_isspace c then ws_plus cs @ [cs] else [])"

definition rx_ws :: "unit rx" where
  "rx_ws s = map (\<lambda>r. ((), r)) (ws_plus s)"

text \<open>The four formats of \<^verbatim>\<open>time_formats\<close>, in the order of the source.\<close>

datatype time_format = Fmt_I_M_space_p | Fmt_H_M | Fmt_I_p | Fmt_I_M_p

definition time_formats :: "time_format list" where
  "time_formats = [Fmt_I_M_space_p, Fmt_H_M, Fmt_I_p, Fmt_I_M_p]"

text \<open>What a match finds: the hour digits, the minute digits, and the AM/PM mark if any.\<close>

fun format_regex :: "time_format \<Rightarrow> (nat \<times> nat \<times> bool option) rx" where
  "format_regex Fmt_I_M_space_p =
     rx_bind rx_I (\<lambda>h. rx_bind (rx_lit CHR '':'') (\<lambda>_. rx_bind rx_M (\<lambda>m.
       rx_bind rx_ws (\<lambda>_. rx_bind rx_p (\<lambda>p. rx_return (h, m, Some p))))))"
| "format_regex Fmt_H_M =
     rx_bind rx_H (\<lambda>h. rx_bind (rx_lit CHR '':'') (\<lambda>_. rx_bind rx_M (\<lambda>m.
       rx_return (h, m, None))))"
| "format_regex Fmt_I_p =
     rx_bind rx_I (\<lambda>h. rx_bind rx_p (\<lambda>p. rx_return (h, 0, Some p)))"
| "format_regex Fmt_I_M_p =
     rx_bind rx_I (\<lambda>h. rx_bind (rx_lit CHR '':'') (\<lambda>_. rx_bind rx_M (\<lambda>m.
       rx_bind rx_p (\<lambda>p. rx_return (h, m, Some p)))))"

text \<open>
  A \<^verbatim>\<open>datetime\<close>: the day counted from the default date 1900-01-01 that
  \<^verbatim>\<open>strptime\<close> gives a time without a date, the hour (0-23) and the minute.
\<close>

record datetime =
  dt_day :: nat
  dt_hour :: nat
  dt_minute :: nat

text \<open>The hour of a match: \<^verbatim>\<open>12 AM\<close> is hour 0, and \<^verbatim>\<open>PM\<close> adds 12 except to 12.\<close>

definition hour24 :: "nat \<Rightarrow> bool option \<Rightarrow> nat" where
  "hour24 h ampm =
     (case ampm of
        None \<Rightarrow> h
      | Some False \<Rightarrow> (if h = 12 then 0 else h)
      | Some True \<Rightarrow> (if h \<noteq> 12 then h + 12 else h))"

definition strptime :: "string \<Rightarrow> time_format \<Rightarrow> datetime outcome" where
  "strptime data_string fmt =
     (case format_regex fmt data_string of
        [] \<Rightarrow> Inl ValueError
      | ((h, m, ampm), rest) # _ \<Rightarrow>
          if rest \<noteq> [] then Inl ValueError
          else Inr \<lparr>dt_day = 0, dt_hour = hour24 h ampm, dt_minute = m\<rparr>)"

text \<open>\<^verbatim>\<open>d + timedelta(hours=k)\<close>.\<close>

definition add_hours :: "datetime \<Rightarrow> nat \<Rightarrow> datetime" where
  "add_hours d k =
     (let t = dt_hour d + k
      in \<lparr>dt_day = dt_day d + t div 24, dt_hour = t mod 24, dt_minute = dt_minute d\<rparr>)"

text \<open>\<^verbatim>\<open>d.strftime("%I:%M %p")\<close>: both numbers padded to two digits.\<close>

definition two_digits :: "nat \<Rightarrow> string" where
  "two_digits n = [char_of (48 + n div 10 mod 10), char_of (48 + n mod 10)]"

definition strftime_I_M_p :: "datetime \<Rightarrow> string" where
  "strftime_I_M_p d =
     two_digits (if dt_hour d mod 12 = 0 then 12 else dt_hour d mod 12) @ '':'' @
     two_digits (dt_minute d) @ '' '' @ (if dt_hour d < 12 then ''AM'' else ''PM'')"

text \<open>\<^verbatim>\<open>x.strip()\<close> as a method call: a missing cell is a float and has no such method.\<close>

definition method_strip :: "cell \<Rightarrow> string outcome" where
  "method_strip x = (case x of Missing \<Rightarrow> Inl AttributeError | Text s \<Rightarrow> Inr (py_strip s))"

text \<open>
  The loop over the formats (lines 200-205): the first format that parses ends the loop,
  a \<^verbatim>\<open>ValueError\<close> moves on to the next one, any other exception leaves the loop.
\<close>

fun try_formats :: "cell \<Rightarrow> time_format list \<Rightarrow> datetime option outcome" where
  "try_formats booking_time [] = Inr None"
| "try_formats booking_time (fmt # fmts) =
     (case method_strip booking_time of
        Inl e \<Rightarrow> Inl e
      | Inr s \<Rightarrow>
          (case strptime s fmt of
             Inr d \<Rightarrow> Inr (Some d)
           | Inl e \<Rightarrow> if e = ValueError then try_formats booking_time fmts else Inl e))"

text \<open>The body of the outer \<^verbatim>\<open>try\<close> of \<^verbatim>\<open>calculate_end_time\<close> (lines 191-218).\<close>

definition calculate_end_time_body :: "cell \<Rightarrow> string outcome" where
  "calculate_end_time_body booking_time =
     (case try_formats booking_time time_formats of
        Inl e \<Rightarrow> Inl e
      | Inr None \<Rightarrow> Inr (py_str booking_time @ '' - '' @ py_str booking_time)
      | Inr (Some booking_datetime) \<Rightarrow>
          let end_datetime = add_hours booking_datetime 2;
              start_formatted = py_lstrip_char CHR ''0'' (strftime_I_M_p booking_datetime);
              end_formatted = py_lstrip_char CHR ''0'' (strftime_I_M_p end_datetime)
          in Inr (start_formatted @ '' - '' @ end_formatted))"

text \<open>\<^verbatim>\<open>calculate_end_time\<close> (lines 188-222): \<^verbatim>\<open>except Exception\<close> takes every exception.\<close>

definition calculate_end_time :: "cell \<Rightarrow> string outcome" where
  "calculate_end_time booking_time =
     (case calculate_end_time_body booking_time of
        Inr s \<Rightarrow> Inr s
      | Inl e \<Rightarrow> Inr (py_str booking_time @ '' - '' @ py_str booking_time))"

section \<open>Style configuration\<close>

record design_specs =
  font_family :: string
  title_font_size :: int
  content_font_size :: int
  card_width :: real
  card_height :: real
  margin :: real
  background_color :: string
  text_color :: string
  border :: bool
  border_color :: string

text \<open>\<^verbatim>\<open>get_default_specs\<close> (lines 28-41).\<close>

definition get_default_specs :: design_specs where
  "get_default_specs =
     \<lparr>font_family = ''Helvetica'', title_font_size = 14, content_font_size = 12,
      card_width = 3.5, card_height = 2.5, margin = 0.5,
      background_color = ''white'', text_color = ''black'',
      border = True, border_color = ''gray''\<rparr>"

text \<open>
  The state of the file \<^verbatim>\<open>design_specs.json\<close>: not there, there but not readable by
  the process, readable but not JSON, or holding a configuration.
\<close>

datatype specs_source = Absent | Unreadable | Malformed | Present design_specs

text \<open>
  The body of the \<^verbatim>\<open>try\<close> of \<^verbatim>\<open>load_design_specs\<close> (lines 22-23): \<^verbatim>\<open>open\<close>
  raises \<^verbatim>\<open>FileNotFoundError\<close> or \<^verbatim>\<open>PermissionError\<close>, \<^verbatim>\<open>json.load\<close> raises
  \<^verbatim>\<open>JSONDecodeError\<close>.
\<close>

definition open_and_load :: "specs_source \<Rightarrow> design_specs outcome" where
  "open_and_load src =
     (case src of
        Absent \<Rightarrow> Inl FileNotFoundError
      | Unreadable \<Rightarrow> Inl PermissionError
      | Malformed \<Rightarrow> Inl JSONDecodeError
      | Present d \<Rightarrow> Inr d)"

datatype notice = Warning_specs_not_found

text \<open>
  \<^verbatim>\<open>load_design_specs\<close> (lines 19-26): the one handler is
  \<^verbatim>\<open>except FileNotFoundError\<close>; it warns and returns the defaults. The result is the
  configuration and the warnings shown.
\<close>

definition load_design_specs :: "specs_source \<Rightarrow> (design_specs \<times> notice list) outcome" where
  "load_design_specs src =
     (case open_and_load src of
        Inr d \<Rightarrow> Inr (d, [])
      | Inl e \<Rightarrow> if e = FileNotFoundError
                 then Inr (get_default_specs, [Warning_specs_not_found])
                 else Inl e)"

section \<open>Cards and pages\<close>

text \<open>A data frame: the column names and the rows; a row gives the cell of each column.\<close>

type_synonym row = "string \<Rightarrow> cell"

record dataframe =
  columns :: "string list"
  rows :: "row list"

text \<open>
  A placecard: the texts of its paragraphs and the colour of its outline, if the border
  is on. A cell of the page grid is a card, or the empty text put in an unused place.
\<close>

record card =
  reserved_title :: string
  name_text :: string
  time_info :: string
  table_text :: string
  party_text :: string
  box_color :: "string option"

datatype grid_cell = Blank | Card card

datatype flowable = Page_table "grid_cell list list" | PageBreak

text \<open>
  The rendering library (\<^verbatim>\<open>reportlab\<close>) is not part of the program. Each of its calls
  either returns or raises an exception: it raises \<^verbatim>\<open>ValueError\<close> for a paragraph text
  that is not well-formed markup or for a colour name it does not know, and
  \<^verbatim>\<open>LayoutError\<close> for a story it cannot lay out. What the library does is a parameter of
  the model, one field for each group of calls of the source, which gives the exception
  raised, if any:
  \<^item> \<open>doc_setup\<close>: the document template and the two styles (lines 237-278);
  \<^item> \<open>card_styles\<close>: the three styles of a card (lines 346-374);
  \<^item> \<open>new_paragraph\<close>: one \<^verbatim>\<open>Paragraph(text, style)\<close>;
  \<^item> \<open>card_tables\<close>: the tables and table styles of a card (lines 393-440);
  \<^item> \<open>page_table\<close>: the table of a page and its style (lines 317-331);
  \<^item> \<open>doc_build\<close>: \<^verbatim>\<open>doc.build(story)\<close> (line 339).
\<close>

datatype para_style = HeaderStyle | CustomTitle | CustomContent | LeftStyle | RightStyle

record library =
  doc_setup :: "design_specs \<Rightarrow> py_exn option"
  card_styles :: "design_specs \<Rightarrow> py_exn option"
  new_paragraph :: "design_specs \<Rightarrow> para_style \<Rightarrow> string \<Rightarrow> py_exn option"
  card_tables :: "design_specs \<Rightarrow> card \<Rightarrow> py_exn option"
  page_table :: "design_specs \<Rightarrow> grid_cell list list \<Rightarrow> py_exn option"
  doc_build :: "design_specs \<Rightarrow> flowable list \<Rightarrow> py_exn option"

text \<open>A library call followed by the rest, and a call of the program followed by the rest.\<close>

definition raising :: "py_exn option \<Rightarrow> 'a outcome \<Rightarrow> 'a outcome" where
  "raising step rest = (case step of Some e \<Rightarrow> Inl e | None \<Rightarrow> rest)"

definition and_then :: "'a outcome \<Rightarrow> ('a \<Rightarrow> 'b outcome) \<Rightarrow> 'b outcome" where
  "and_then result rest = (case result of Inl e \<Rightarrow> Inl e | Inr x \<Rightarrow> rest x)"

text \<open>
  Two libraries: one that accepts every call, and one that accepts every call but a
  paragraph whose text is one of the given texts, as \<^verbatim>\<open>reportlab\<close> refuses a text
  that is not well-formed markup, \<^verbatim>\<open><b><i>ann</b>\<close> for one.
\<close>

definition accepting :: library where
  "accepting =
     \<lparr>doc_setup = (\<lambda>specs. None),
      card_styles = (\<lambda>specs. None),
      new_paragraph = (\<lambda>specs style text. None),
      card_tables = (\<lambda>specs c. None),
      page_table = (\<lambda>specs data. None),
      doc_build = (\<lambda>specs story. None)\<rparr>"

definition rejecting :: "string list \<Rightarrow> library" where
  "rejecting texts =
     accepting\<lparr>new_paragraph :=
       (\<lambda>specs style text. if text \<in> set texts then Some ValueError else None)\<rparr>"

text \<open>
  \<^verbatim>\<open>create_single_card\<close> (lines 343-442), in the order of the source: the styles, the
  title paragraph, then name, time and table numbers, each normalized and put unescaped
  into the text of a paragraph, then the tables.
\<close>

definition create_single_card :: "library \<Rightarrow> row \<Rightarrow> design_specs \<Rightarrow> card outcome" where
  "create_single_card lib r specs =
     raising (card_styles lib specs)
    (raising (new_paragraph lib specs HeaderStyle ''<b>RESERVED</b>'')
    (and_then (capitalize_customer_name (r ''Customer'')) (\<lambda>capitalized_name.
     raising (new_paragraph lib specs CustomTitle (''<b>'' @ capitalized_name @ ''</b>''))
    (and_then (calculate_end_time (r ''Time'')) (\<lambda>time_range.
     raising (new_paragraph lib specs CustomContent time_range)
    (raising (new_paragraph lib specs CustomContent [])
    (and_then (extract_table_numbers (r ''Table(s)'')) (\<lambda>table_numbers.
     raising (new_paragraph lib specs LeftStyle (''T'' @ table_numbers))
    (raising (new_paragraph lib specs RightStyle (py_str (r ''Number of People'') @ ''P''))
    (let c = \<lparr>reserved_title = ''<b>RESERVED</b>'',
                name_text = ''<b>'' @ capitalized_name @ ''</b>'',
                time_info = time_range,
                table_text = ''T'' @ table_numbers,
                party_text = py_str (r ''Number of People'') @ ''P'',
                box_color = (if border specs then Some (border_color specs) else None)\<rparr>
     in raising (card_tables lib specs c) (Inr c)))))))))))"

text \<open>The two loops that build a row of cards (lines 291-294 and 305-308).\<close>

fun make_cards :: "library \<Rightarrow> row list \<Rightarrow> design_specs \<Rightarrow> grid_cell list outcome" where
  "make_cards lib [] specs = Inr []"
| "make_cards lib (r # rs) specs =
     (case create_single_card lib r specs of
        Inl e \<Rightarrow> Inl e
      | Inr c \<Rightarrow>
          (case make_cards lib rs specs of
             Inl e \<Rightarrow> Inl e
           | Inr cs \<Rightarrow> Inr (Card c # cs)))"

text \<open>\<^verbatim>\<open>while len(row_cards) < 2: row_cards.append("")\<close>.\<close>

definition fill_row :: "grid_cell list \<Rightarrow> grid_cell list" where
  "fill_row cells = cells @ replicate (2 - length cells) Blank"

text \<open>The grid of one page (lines 287-314) from the bookings of the page.\<close>

definition page_data ::
  "library \<Rightarrow> row list \<Rightarrow> design_specs \<Rightarrow> grid_cell list list outcome" where
  "page_data lib page_bookings specs =
     (case make_cards lib (take (min 2 (length page_bookings)) page_bookings) specs of
        Inl e \<Rightarrow> Inl e
      | Inr row1_cards \<Rightarrow>
          (case (if length page_bookings > 2
                 then make_cards lib
                        (drop 2 (take (min 4 (length page_bookings)) page_bookings)) specs
                 else Inr []) of
             Inl e \<Rightarrow> Inl e
           | Inr row2_cards \<Rightarrow> Inr [fill_row row1_cards, fill_row row2_cards]))"

text \<open>
  The loop \<^verbatim>\<open>for page_start in range(0, len(df), 4)\<close> (lines 283-337), from a given
  \<^verbatim>\<open>page_start\<close> on.
\<close>

function story_from ::
  "library \<Rightarrow> nat \<Rightarrow> row list \<Rightarrow> design_specs \<Rightarrow> flowable list outcome" where
  "story_from lib page_start df specs =
     (if page_start < length df then
        (case page_data lib (take 4 (drop page_start df)) specs of
           Inl e \<Rightarrow> Inl e
         | Inr pd \<Rightarrow>
             (case page_table lib specs pd of
                Some e \<Rightarrow> Inl e
              | None \<Rightarrow>
                  (case story_from lib (page_start + 4) df specs of
                     Inl e \<Rightarrow> Inl e
                   | Inr rest \<Rightarrow>
                       Inr (Page_table pd
                            # (if page_start + 4 < length df then [PageBreak] else [])
                            @ rest))))
      else Inr [])"
  by pat_completeness auto
termination
  by (relation "measure (\<lambda>(lib, page_start, df, specs). length df - page_start)") auto

declare story_from.simps [simp del]

text \<open>
  \<^verbatim>\<open>generate_placecards\<close> (lines 235-341): the set-up, the loop and
  \<^verbatim>\<open>doc.build\<close>. The result is the story that was built into the document.
\<close>

definition generate_placecards ::
  "library \<Rightarrow> dataframe \<Rightarrow> design_specs \<Rightarrow> flowable list outcome" where
  "generate_placecards lib df specs =
     raising (doc_setup lib specs)
    (and_then (story_from lib 0 (rows df) specs) (\<lambda>story.
     raising (doc_build lib specs story) (Inr story)))"

section \<open>The upload pipeline\<close>

datatype filter_option = All_bookings | Lunch_only | Dinner_only

datatype event =
    Page_title
  | Specs_notice notice
  | Upload_widget
  | Data_preview "row list"
  | St_error_missing_columns "string list"
  | St_info_required_columns
  | St_success_found nat
  | Filter_widget
  | St_info_filtered filter_option nat
  | Filtered_preview "row list"
  | St_warning_no_bookings
  | St_stop
  | Design_settings design_specs
  | Generated "flowable list" string
  | St_error_generating py_exn
  | St_error_reading_csv py_exn
  | Instructions

definition required_columns :: "string list" where
  "required_columns =
     [''Service or Event'', ''Time'', ''Number of People'', ''Customer'', ''Table(s)'']"

text \<open>\<^verbatim>\<open>validate_csv_structure\<close> (lines 224-233): the verdict and what is shown.\<close>

definition validate_csv_structure :: "dataframe \<Rightarrow> bool \<times> event list" where
  "validate_csv_structure df =
     (let missing_columns = filter (\<lambda>col. col \<notin> set (columns df)) required_columns
      in if missing_columns \<noteq> []
         then (False, [St_error_missing_columns missing_columns, St_info_required_columns])
         else (True, []))"

text \<open>
  \<^verbatim>\<open>df[key]\<close> for a list of column names, as \<^verbatim>\<open>pandas\<close> does it: when labels of
  the key are not columns it raises \<^verbatim>\<open>KeyError\<close>, whose message names the whole key
  if none of its labels is a column and the labels not found otherwise.
\<close>

definition getitem_columns :: "dataframe \<Rightarrow> string list \<Rightarrow> dataframe outcome" where
  "getitem_columns df key =
     (let not_found = filter (\<lambda>col. col \<notin> set (columns df)) key
      in if not_found = [] then Inr (df\<lparr>columns := key\<rparr>)
         else if length not_found = length key then Inl (KeyError key)
         else Inl (KeyError (rev (remdups (rev not_found)))))"

text \<open>
  The accessor \<^verbatim>\<open>.str\<close> of a column, as \<^verbatim>\<open>pandas\<close> does it: a column that has rows
  but no text in them (every cell missing) is read by \<^verbatim>\<open>read_csv\<close> as a column of
  numbers, and the accessor raises \<^verbatim>\<open>AttributeError\<close>; a column without rows, or with
  a text, is a column of objects, and the accessor is there.
\<close>

definition str_accessor :: "cell list \<Rightarrow> cell list outcome" where
  "str_accessor vals =
     (if vals \<noteq> [] \<and> list_all pd_isna vals then Inl AttributeError else Inr vals)"

text \<open>\<^verbatim>\<open>pat in s\<close>, which is what \<^verbatim>\<open>str.contains\<close> decides for a pattern of letters.\<close>

fun py_contains :: "string \<Rightarrow> string \<Rightarrow> bool" where
  "py_contains pat [] = (pat = [])"
| "py_contains pat (c # cs) = (prefix pat (c # cs) \<or> py_contains pat cs)"

text \<open>
  One value of \<^verbatim>\<open>.str.lower().str.contains(kw, na=False)\<close>: a missing cell stays
  missing under \<^verbatim>\<open>lower\<close> and \<^verbatim>\<open>contains\<close>, and \<^verbatim>\<open>na=False\<close> makes it
  \<^verbatim>\<open>False\<close>.
\<close>

definition service_mask :: "string \<Rightarrow> cell \<Rightarrow> bool" where
  "service_mask kw v =
     (case v of
        Missing \<Rightarrow> False
      | Text s \<Rightarrow> py_contains kw (py_lower s))"

text \<open>
  \<^verbatim>\<open>df2[df2['Service or Event'].str.lower().str.contains(kw, na=False)]\<close> (lines 485
  and 488): the accessor on the column, then the rows whose value of the mask is true.
\<close>

definition filter_service :: "string \<Rightarrow> dataframe \<Rightarrow> dataframe outcome" where
  "filter_service kw df2 =
     and_then (str_accessor (map (\<lambda>r. r ''Service or Event'') (rows df2))) (\<lambda>vals.
       Inr (df2\<lparr>rows := map fst (filter (\<lambda>(r, v). service_mask kw v) (zip (rows df2) vals))\<rparr>))"

text \<open>The filtering of lines 484-492.\<close>

definition apply_filter :: "filter_option \<Rightarrow> dataframe \<Rightarrow> dataframe outcome" where
  "apply_filter filter_option df2 =
     (if filter_option = Lunch_only then filter_service ''lunch'' df2
      else if filter_option = Dinner_only then filter_service ''dinner'' df2
      else Inr df2)"

definition pdf_filename :: "filter_option \<Rightarrow> string" where
  "pdf_filename filter_option =
     (if filter_option = Lunch_only then ''brewvino_placecards_lunch.pdf''
      else if filter_option = Dinner_only then ''brewvino_placecards_dinner.pdf''
      else ''brewvino_placecards_all_services.pdf'')"

text \<open>
  Lines 554-579: the button, the generation and its handler
  \<^verbatim>\<open>except Exception\<close>.
\<close>

definition generate_section ::
  "library \<Rightarrow> dataframe \<Rightarrow> design_specs \<Rightarrow> filter_option \<Rightarrow> bool \<Rightarrow> event list" where
  "generate_section lib filtered_df specs filter_option clicked =
     (if clicked then
        (case generate_placecards lib filtered_df specs of
           Inr story \<Rightarrow> [Generated story (pdf_filename filter_option)]
         | Inl e \<Rightarrow> [St_error_generating e])
      else [])"

text \<open>
  The two sliders of the settings panel (lines 515-516), \<^verbatim>\<open>st.slider(label, 10, 30,
  value)\<close> and \<^verbatim>\<open>st.slider(label, 8, 24, value)\<close>: a slider raises
  \<^verbatim>\<open>StreamlitAPIException\<close> for a default value outside its bounds.
\<close>

definition sliders_accept :: "design_specs \<Rightarrow> bool" where
  "sliders_accept specs \<longleftrightarrow>
     10 \<le> title_font_size specs \<and> title_font_size specs \<le> 30 \<and>
     8 \<le> content_font_size specs \<and> content_font_size specs \<le> 24"

text \<open>
  Lines 470-579, entered when the validation passes: what is shown, and the exception
  that ends it, if any. \<^verbatim>\<open>st.stop()\<close> ends the script: it is not an
  \<^verbatim>\<open>Exception\<close>, so no handler of the program takes it. The widgets are inputs: the
  chosen filter, the edits of the settings panel, the button.
\<close>

definition process_bookings ::
  "library \<Rightarrow> dataframe \<Rightarrow> design_specs \<Rightarrow> filter_option \<Rightarrow> (design_specs \<Rightarrow> design_specs)
     \<Rightarrow> bool \<Rightarrow> event list \<times> py_exn option" where
  "process_bookings lib df2 specs filter_option edit clicked =
     (let found = [St_success_found (length (rows df2)), Filter_widget]
      in case apply_filter filter_option df2 of
           Inl e \<Rightarrow> (found, Some e)
         | Inr filtered_df \<Rightarrow>
             (let shown = found @ [St_info_filtered filter_option (length (rows filtered_df))]
              in if length (rows filtered_df) > 0
                 then (if sliders_accept specs
                       then (shown @ [Filtered_preview (take 5 (rows filtered_df)),
                                      Design_settings (edit specs)]
                             @ generate_section lib filtered_df (edit specs) filter_option clicked,
                             None)
                       else (shown @ [Filtered_preview (take 5 (rows filtered_df))],
                             Some StreamlitAPIException))
                 else (shown @ [St_warning_no_bookings, St_stop], None)))"

text \<open>
  Lines 459-582: the body of \<^verbatim>\<open>try\<close> for an uploaded table, already parsed by
  \<^verbatim>\<open>pd.read_csv\<close>, and the handler \<^verbatim>\<open>except Exception\<close> of line 581, which
  shows the exception under what was shown before it.
\<close>

definition handle_upload ::
  "library \<Rightarrow> dataframe \<Rightarrow> design_specs \<Rightarrow> filter_option \<Rightarrow> (design_specs \<Rightarrow> design_specs)
     \<Rightarrow> bool \<Rightarrow> event list" where
  "handle_upload lib df specs filter_option edit clicked =
     (case getitem_columns df required_columns of
        Inl e \<Rightarrow> [St_error_reading_csv e]
      | Inr df2 \<Rightarrow>
          Data_preview (take 5 (rows df2))
          # (case validate_csv_structure df2 of
               (False, shown) \<Rightarrow> shown
             | (True, shown) \<Rightarrow>
                 (case process_bookings lib df2 specs filter_option edit clicked of
                    (evs, None) \<Rightarrow> shown @ evs
                  | (evs, Some e) \<Rightarrow> shown @ evs @ [St_error_reading_csv e])))"

text \<open>
  \<^verbatim>\<open>main\<close> (lines 444-620). An exception of \<^verbatim>\<open>load_design_specs\<close> has no handler
  and ends the run; after \<^verbatim>\<open>st.stop()\<close> the instructions are not shown.
\<close>

definition main ::
  "library \<Rightarrow> specs_source \<Rightarrow> dataframe option \<Rightarrow> filter_option
     \<Rightarrow> (design_specs \<Rightarrow> design_specs) \<Rightarrow> bool \<Rightarrow> event list outcome" where
  "main lib src uploaded_file filter_option edit clicked =
     (case load_design_specs src of
        Inl e \<Rightarrow> Inl e
      | Inr (specs, notices) \<Rightarrow>
          (let shown = [Page_title] @ map Specs_notice notices @ [Upload_widget]
                       @ (case uploaded_file of
                            None \<Rightarrow> []
                          | Some df \<Rightarrow> handle_upload lib df specs filter_option edit clicked)
           in if St_stop \<in> set shown then Inr shown else Inr (shown @ [Instructions])))"

section \<open>The specification's notions\<close>

text \<open>
  The first contiguous run of digits of a segment, and the runs of the comma-separated
  segments of a table text that hold a digit, in their order.
\<close>

definition first_digit_run :: "string \<Rightarrow> string" where
  "first_digit_run seg = takeWhile is_digit (dropWhile (\<lambda>c. \<not> is_digit c) seg)"

definition digit_runs :: "string \<Rightarrow> string list" where
  "digit_runs s = map first_digit_run (filter (list_ex is_digit) (py_split_on CHR '','' s))"

text \<open>
  The first of the formats, in their order, that parses a text, and the hour (0-23) and
  minute it reads. A time of day on the 12-hour clock: the hour 1-12 without a leading
  zero, the minute in two digits, and the suffix.
\<close>

definition first_parse :: "string \<Rightarrow> time_format list \<Rightarrow> datetime option" where
  "first_parse t fmts =
     (case List.find (\<lambda>fmt. \<not> isl (strptime t fmt)) fmts of
        None \<Rightarrow> None
      | Some fmt \<Rightarrow> (case strptime t fmt of Inr d \<Rightarrow> Some d | Inl e \<Rightarrow> None))"

definition parse_time :: "string \<Rightarrow> (nat \<times> nat) option" where
  "parse_time t = map_option (\<lambda>d. (dt_hour d, dt_minute d)) (first_parse t time_formats)"

definition digit_char :: "nat \<Rightarrow> char" where
  "digit_char n = char_of (48 + n)"

definition clock12 :: "nat \<Rightarrow> nat \<Rightarrow> string" where
  "clock12 h m =
     (let k = (if h mod 12 = 0 then 12 else h mod 12)
      in (if k < 10 then [digit_char k] else [digit_char (k div 10), digit_char (k mod 10)])
         @ '':'' @ [digit_char (m div 10), digit_char (m mod 10)] @ '' ''
         @ (if h < 12 then ''AM'' else ''PM''))"

text \<open>A normalizer applied to its own result; an exception of the first call is kept.\<close>

definition twice :: "(cell \<Rightarrow> string outcome) \<Rightarrow> string \<Rightarrow> string outcome" where
  "twice f s = (case f (Text s) of Inl e \<Rightarrow> Inl e | Inr out \<Rightarrow> f (Text out))"

text \<open>
  Pagination in the specification's words: the cards are cut into consecutive chunks of
  at most four; a chunk fills the two rows of a grid from the top left, and a place past
  the end of the chunk is blank; a page separator stands between two pages. The grids
  and the cards are read back from a story.
\<close>

function chunks :: "'a list \<Rightarrow> 'a list list" where
  "chunks xs = (if xs = [] then [] else take 4 xs # chunks (drop 4 xs))"
  by pat_completeness auto
termination
  by (relation "measure length") auto

declare chunks.simps [simp del]

definition cell_at :: "card list \<Rightarrow> nat \<Rightarrow> grid_cell" where
  "cell_at chunk i = (if i < length chunk then Card (chunk ! i) else Blank)"

definition grid_of :: "card list \<Rightarrow> grid_cell list list" where
  "grid_of chunk = [[cell_at chunk 0, cell_at chunk 1], [cell_at chunk 2, cell_at chunk 3]]"

fun separate :: "'a \<Rightarrow> 'a list \<Rightarrow> 'a list" where
  "separate sep [] = []"
| "separate sep [x] = [x]"
| "separate sep (x # y # ys) = x # sep # separate sep (y # ys)"

definition spec_story :: "card list \<Rightarrow> flowable list" where
  "spec_story cards = separate PageBreak (map (\<lambda>chunk. Page_table (grid_of chunk)) (chunks cards))"

fun page_grids :: "flowable list \<Rightarrow> grid_cell list list list" where
  "page_grids [] = []"
| "page_grids (Page_table g # fs) = g # page_grids fs"
| "page_grids (PageBreak # fs) = page_grids fs"

fun cards_in :: "grid_cell list \<Rightarrow> card list" where
  "cards_in [] = []"
| "cards_in (Card c # gs) = c # cards_in gs"
| "cards_in (Blank # gs) = cards_in gs"

text \<open>
  The card of a record, whatever the library does: the texts of its six paragraphs, in
  the order of the source, and the card. The library accepts a record when it accepts
  the styles, each of the six paragraphs and the tables of its card; it accepts a
  sequence of records when it accepts the set-up, every record, the table of every page
  and the building of the story.
\<close>

definition text_of :: "string outcome \<Rightarrow> string" where
  "text_of result = (case result of Inl e \<Rightarrow> [] | Inr s \<Rightarrow> s)"

definition card_paragraphs :: "row \<Rightarrow> (para_style \<times> string) list" where
  "card_paragraphs r =
     [(HeaderStyle, ''<b>RESERVED</b>''),
      (CustomTitle, ''<b>'' @ text_of (capitalize_customer_name (r ''Customer'')) @ ''</b>''),
      (CustomContent, text_of (calculate_end_time (r ''Time''))),
      (CustomContent, []),
      (LeftStyle, ''T'' @ text_of (extract_table_numbers (r ''Table(s)''))),
      (RightStyle, py_str (r ''Number of People'') @ ''P'')]"

definition card_of :: "design_specs \<Rightarrow> row \<Rightarrow> card" where
  "card_of specs r =
     \<lparr>reserved_title = ''<b>RESERVED</b>'',
      name_text = ''<b>'' @ text_of (capitalize_customer_name (r ''Customer'')) @ ''</b>'',
      time_info = text_of (calculate_end_time (r ''Time'')),
      table_text = ''T'' @ text_of (extract_table_numbers (r ''Table(s)'')),
      party_text = py_str (r ''Number of People'') @ ''P'',
      box_color = (if border specs then Some (border_color specs) else None)\<rparr>"

definition cards_of :: "design_specs \<Rightarrow> dataframe \<Rightarrow> card list" where
  "cards_of specs df = map (card_of specs) (rows df)"

definition accepts_card :: "library \<Rightarrow> design_specs \<Rightarrow> row \<Rightarrow> bool" where
  "accepts_card lib specs r \<longleftrightarrow>
     card_styles lib specs = None \<and>
     list_all (\<lambda>(style, text). new_paragraph lib specs style text = None) (card_paragraphs r) \<and>
     card_tables lib specs (card_of specs r) = None"

definition accepts :: "library \<Rightarrow> design_specs \<Rightarrow> dataframe \<Rightarrow> bool" where
  "accepts lib specs df \<longleftrightarrow>
     doc_setup lib specs = None \<and>
     list_all (accepts_card lib specs) (rows df) \<and>
     list_all (\<lambda>chunk. page_table lib specs (grid_of chunk) = None) (chunks (cards_of specs df)) \<and>
     doc_build lib specs (spec_story (cards_of specs df)) = None"

text \<open>
  Filtering in the specification's words: the keyword occurs in the category text, case
  ignored; a missing category matches nothing.
\<close>

definition contains_ci :: "string \<Rightarrow> string \<Rightarrow> bool" where
  "contains_ci kw s \<longleftrightarrow> (\<exists>pre mid post. s = pre @ mid @ post \<and> py_lower mid = py_lower kw)"

definition category_matches :: "string \<Rightarrow> row \<Rightarrow> bool" where
  "category_matches kw r =
     (case r ''Service or Event'' of Missing \<Rightarrow> False | Text s \<Rightarrow> contains_ci kw s)"

text \<open>The required columns that a frame does not have, in the order of the requirement.\<close>

definition missing_columns :: "dataframe \<Rightarrow> string list" where
  "missing_columns df = filter (\<lambda>col. col \<notin> set (columns df)) required_columns"

text \<open>A word: a non-empty text without whitespace.\<close>

definition is_word :: "string \<Rightarrow> bool" where
  "is_word w \<longleftrightarrow> w \<noteq> [] \<and> list_all (\<lambda>c. \<not> py_isspace c) w"

section \<open>Table numbers\<close>

lemma dropWhile_weaker:
  "(\<And>x. P x \<Longrightarrow> Q x) \<Longrightarrow> dropWhile Q (dropWhile P xs) = dropWhile Q xs"
  by (induction xs) auto

lemma space_not_digit: "py_isspace c \<Longrightarrow> \<not> is_digit c"
  by (auto simp: py_isspace_def is_digit_def Let_def)

lemma rstrip_decomp: "\<exists>ws. s = py_rstrip s @ ws \<and> list_all py_isspace ws"
proof -
  have "rev s = takeWhile py_isspace (rev s) @ dropWhile py_isspace (rev s)" by simp
  then have "s = rev (dropWhile py_isspace (rev s)) @ rev (takeWhile py_isspace (rev s))"
    by (metis rev_append rev_rev_ident)
  moreover have "list_all py_isspace (rev (takeWhile py_isspace (rev s)))"
    by (simp add: list_all_iff) (meson set_takeWhileD)
  ultimately show ?thesis unfolding py_rstrip_def by blast
qed

lemma takeWhile_append_none:
  "list_all (\<lambda>c. \<not> P c) ws \<Longrightarrow> takeWhile P (ys @ ws) = takeWhile P ys"
proof (induction ys)
  case Nil
  then show ?case by (cases ws) simp_all
next
  case (Cons y ys)
  then show ?case by simp
qed

lemma dropWhile_append_none:
  "list_all P ws \<Longrightarrow> dropWhile P xs = [] \<Longrightarrow> dropWhile P (xs @ ws) = []"
  by (auto simp: dropWhile_eq_Nil_conv list_all_iff)

lemma dropWhile_Cons_not: "dropWhile P s = x # xs \<Longrightarrow> \<not> P x"
  using hd_dropWhile [of P s] by auto

lemma first_digit_run_no_digit:
  "\<not> list_ex is_digit xs \<Longrightarrow> first_digit_run xs = []"
proof -
  assume "\<not> list_ex is_digit xs"
  then have "dropWhile (\<lambda>c. \<not> is_digit c) xs = []"
    by (simp add: list_ex_iff)
  then show ?thesis by (simp only: first_digit_run_def takeWhile.simps)
qed

lemma first_digit_run_append_nodigit:
  assumes "list_all (\<lambda>c. \<not> is_digit c) ws"
  shows "first_digit_run (xs @ ws) = first_digit_run xs"
proof (cases "list_ex is_digit xs")
  case False
  then have "\<not> list_ex is_digit (xs @ ws)"
    using assms by (auto simp: list_ex_iff list_all_iff)
  then show ?thesis using False by (simp add: first_digit_run_no_digit)
next
  case True
  then obtain x where "x \<in> set xs" "\<not> \<not> is_digit x"
    by (auto simp: list_ex_iff)
  then have "dropWhile (\<lambda>c. \<not> is_digit c) (xs @ ws) = dropWhile (\<lambda>c. \<not> is_digit c) xs @ ws"
    by (rule dropWhile_append1)
  then show ?thesis
    using takeWhile_append_none [OF assms] by (simp only: first_digit_run_def)
qed

lemma first_digit_run_strip: "first_digit_run (py_strip t) = first_digit_run t"
proof -
  obtain ws where ws: "py_lstrip t = py_rstrip (py_lstrip t) @ ws" "list_all py_isspace ws"
    using rstrip_decomp by blast
  have nd: "list_all (\<lambda>c. \<not> is_digit c) ws"
    using ws(2) by (auto simp: list_all_iff space_not_digit)
  have "first_digit_run (py_strip t) = first_digit_run (py_lstrip t)"
    using first_digit_run_append_nodigit[OF nd, of "py_rstrip (py_lstrip t)"] ws(1)
    by (simp add: py_strip_def)
  also have "\<dots> = first_digit_run t"
    unfolding first_digit_run_def py_lstrip_def
    by (simp add: dropWhile_weaker space_not_digit)
  finally show ?thesis .
qed

lemma findall_digits_Nil: "findall_digits s = [] \<longleftrightarrow> \<not> list_ex is_digit s"
proof (cases "dropWhile (\<lambda>x. \<not> is_digit x) s")
  case Nil
  have "findall_digits s = []"
    by (subst findall_digits.simps) (simp only: Nil list.case)
  moreover have "\<not> list_ex is_digit s"
    using Nil by (simp add: list_ex_iff)
  ultimately show ?thesis by simp
next
  case (Cons d ds)
  have "findall_digits s \<noteq> []"
    by (subst findall_digits.simps) (simp only: Cons list.case, simp)
  moreover have "is_digit d" "d \<in> set s"
    using dropWhile_Cons_not [OF Cons] set_dropWhileD [of d "\<lambda>x. \<not> is_digit x" s] Cons
    by simp_all
  then have "list_ex is_digit s" by (auto simp: list_ex_iff)
  ultimately show ?thesis by simp
qed

lemma findall_digits_hd:
  assumes "findall_digits s = n # ns"
  shows "n = first_digit_run s"
proof (cases "dropWhile (\<lambda>x. \<not> is_digit x) s")
  case Nil
  have "findall_digits s = []"
    by (subst findall_digits.simps) (simp only: Nil list.case)
  then show ?thesis using assms by simp
next
  case (Cons d ds)
  have d: "is_digit d" using dropWhile_Cons_not [OF Cons] by simp
  have "findall_digits s = (d # takeWhile is_digit ds) # findall_digits (dropWhile is_digit ds)"
    by (subst findall_digits.simps) (simp only: Cons list.case)
  then have "n = d # takeWhile is_digit ds" using assms by simp
  also have "\<dots> = first_digit_run s"
    using d by (simp only: first_digit_run_def Cons takeWhile.simps if_True)
  finally show ?thesis .
qed

lemma list_ex_digit_strip: "list_ex is_digit (py_strip t) \<longleftrightarrow> list_ex is_digit t"
proof -
  have "first_digit_run u = [] \<longleftrightarrow> \<not> list_ex is_digit u" for u
  proof (cases "list_ex is_digit u")
    case False
    then show ?thesis by (simp add: first_digit_run_no_digit)
  next
    case True
    then have "findall_digits u \<noteq> []" by (simp add: findall_digits_Nil)
    then obtain n ns where f: "findall_digits u = n # ns" by (cases "findall_digits u") auto
    have "n \<noteq> []"
      using f by (subst (asm) findall_digits.simps) (auto split: list.splits)
    then show ?thesis using findall_digits_hd [OF f] True by simp
  qed
  then show ?thesis by (metis first_digit_run_strip)
qed

lemma clean_tables_eq:
  "clean_tables segs = map first_digit_run (filter (list_ex is_digit) segs)"
proof (induction segs)
  case Nil
  show ?case by simp
next
  case (Cons t ts)
  show ?case
  proof (cases "findall_digits (py_strip t)")
    case Nil
    then have "\<not> list_ex is_digit t"
      using findall_digits_Nil [of "py_strip t"] list_ex_digit_strip by simp
    then show ?thesis using Cons Nil by simp
  next
    case (Cons n ns)
    have "n = first_digit_run t"
      using findall_digits_hd [OF Cons] first_digit_run_strip by simp
    moreover have "list_ex is_digit t"
      using findall_digits_Nil [of "py_strip t"] list_ex_digit_strip Cons by simp
    ultimately show ?thesis using Cons Cons.IH by simp
  qed
qed

lemma first_digit_run_digits: "list_all is_digit (first_digit_run seg)"
  by (simp add: first_digit_run_def list_all_iff) (meson set_takeWhileD)

lemma join_chars:
  "list_all (list_all P) xs \<Longrightarrow> list_all P sep \<Longrightarrow> list_all P (py_join sep xs)"
  by (induction sep xs rule: py_join.induct) simp_all

lemma extract_Text:
  "extract_table_numbers (Text s) =
     Inr (if s = [] then ''TBD''
          else if digit_runs s = [] then ''TBD'' else py_join '','' (digit_runs s))"
  by (simp add: extract_table_numbers_def pd_isna_def py_str_def clean_tables_eq digit_runs_def)

lemma extract_Missing: "extract_table_numbers Missing = Inr ''TBD''"
  by (simp add: extract_table_numbers_def pd_isna_def)

lemma digit_runs_chars:
  "list_all (\<lambda>c. is_digit c \<or> c = CHR '','') (py_join '','' (digit_runs s))"
proof (rule join_chars)
  show "list_all (list_all (\<lambda>c. is_digit c \<or> c = CHR '','')) (digit_runs s)"
    using first_digit_run_digits
    by (auto simp: digit_runs_def list_all_iff)
  show "list_all (\<lambda>c. is_digit c \<or> c = CHR '','') '',''" by simp
qed

lemma extract_output_shape:
  "\<exists>out. extract_table_numbers x = Inr out \<and>
     (out = ''TBD'' \<or> list_all (\<lambda>c. is_digit c \<or> c = CHR '','') out)"
proof (cases x)
  case Missing
  then show ?thesis by (simp add: extract_Missing)
next
  case (Text s)
  then show ?thesis using digit_runs_chars [of s] by (simp add: extract_Text)
qed


text \<open>
  C5: a missing or empty table text gives \<^verbatim>\<open>TBD\<close>; any other text gives the first
  digit runs of its comma-separated segments that hold a digit, in order and joined by
  commas, or \<^verbatim>\<open>TBD\<close> when no segment holds a digit; every result is \<^verbatim>\<open>TBD\<close> or
  made of digits and commas only; and the three examples of the specification hold.
\<close>

theorem extract_table_numbers_spec:
  "extract_table_numbers Missing = Inr ''TBD'' \<and>
   extract_table_numbers (Text []) = Inr ''TBD'' \<and>
   extract_table_numbers (Text s) =
     Inr (if s = [] then ''TBD''
          else if digit_runs s = [] then ''TBD'' else py_join '','' (digit_runs s)) \<and>
   (\<exists>out. extract_table_numbers x = Inr out \<and>
      (out = ''TBD'' \<or> list_all (\<lambda>c. is_digit c \<or> c = CHR '','') out)) \<and>
   extract_table_numbers (Text ''5, T12, none'') = Inr ''5,12'' \<and>
   extract_table_numbers (Text ''abc'') = Inr ''TBD''"
proof -
  have ev: "extract_table_numbers (Text ''5, T12, none'') = Inr ''5,12''"
       "extract_table_numbers (Text ''abc'') = Inr ''TBD''"
    by (simp_all add: extract_table_numbers_def pd_isna_def py_str_def py_split_on.simps
          findall_digits.simps py_strip_def py_lstrip_def py_rstrip_def py_isspace_def
          is_digit_def)
  show ?thesis
    using extract_Missing extract_Text [of s] extract_Text [of "[]"] extract_output_shape [of x] ev
    by simp
qed

theorem extract_table_numbers_spec_witness:
  "extract_table_numbers (Text ''T7,x'') = Inr (py_join '','' (digit_runs ''T7,x''))"
proof -
  have h: "digit_runs ''T7,x'' \<noteq> []"
    by (simp add: digit_runs_def py_split_on.simps is_digit_def)
  from extract_table_numbers_spec [of "''T7,x''" Missing]
  have "extract_table_numbers (Text ''T7,x'') =
     Inr (if ''T7,x'' = [] then ''TBD''
          else if digit_runs ''T7,x'' = [] then ''TBD'' else py_join '','' (digit_runs ''T7,x''))"
    by (elim conjE)
  then show ?thesis using h by simp
qed

section \<open>Time ranges\<close>

lemma strptime_error: "strptime t fmt = Inl e \<Longrightarrow> e = ValueError"
  by (auto simp: strptime_def split: list.splits if_splits prod.splits)

lemma try_formats_Text:
  "try_formats (Text s) fmts = Inr (first_parse (py_strip s) fmts)"
proof (induction fmts)
  case Nil
  show ?case by (simp add: first_parse_def)
next
  case (Cons fmt fmts)
  show ?case
  proof (cases "strptime (py_strip s) fmt")
    case (Inl e)
    then have "e = ValueError" by (rule strptime_error)
    then show ?thesis using Inl Cons
      by (simp add: method_strip_def first_parse_def)
  next
    case (Inr d)
    then show ?thesis by (simp add: method_strip_def first_parse_def)
  qed
qed

lemma rx_bind_set:
  "(v, r) \<in> set (rx_bind p f s) \<longleftrightarrow> (\<exists>x r'. (x, r') \<in> set (p s) \<and> (v, r) \<in> set (f x r'))"
  by (auto simp: rx_bind_def)

lemma rx_alt_set: "(v, r) \<in> set (rx_alt p q s) \<longleftrightarrow> (v, r) \<in> set (p s) \<or> (v, r) \<in> set (q s)"
  by (auto simp: rx_alt_def)

lemma rx_return_set: "(v, r) \<in> set (rx_return x s) \<longleftrightarrow> v = x \<and> r = s"
  by (auto simp: rx_return_def)

lemma rx_digit_set: "(v, r) \<in> set (rx_digit lo hi s) \<Longrightarrow> lo \<le> v \<and> v \<le> hi"
  by (auto simp: rx_digit_def split: list.splits if_splits)


lemma rx_two_range:
  "(v, r) \<in> set (rx_two (rx_digit a b) (rx_digit c d) s) \<Longrightarrow> 10 * a + c \<le> v \<and> v \<le> 10 * b + d"
proof -
  assume "(v, r) \<in> set (rx_two (rx_digit a b) (rx_digit c d) s)"
  then obtain x r1 y r2 where "(x, r1) \<in> set (rx_digit a b s)" "(y, r2) \<in> set (rx_digit c d r1)"
     "v = 10 * x + y"
    unfolding rx_two_def rx_bind_set rx_return_set by blast
  then show ?thesis using rx_digit_set [of x r1 a b s] rx_digit_set [of y r2 c d r1] by simp
qed

lemma rx_I_range: "(v, r) \<in> set (rx_I s) \<Longrightarrow> 1 \<le> v \<and> v \<le> 12"
  unfolding rx_I_def rx_alt_set
  using rx_two_range [of v r 1 1 0 2 s] rx_two_range [of v r 0 0 1 9 s] rx_digit_set [of v r 1 9 s]
  by auto

lemma rx_H_range: "(v, r) \<in> set (rx_H s) \<Longrightarrow> v \<le> 23"
  unfolding rx_H_def rx_alt_set
  using rx_two_range [of v r 2 2 0 3 s] rx_two_range [of v r 0 1 0 9 s] rx_digit_set [of v r 0 9 s]
  by auto

lemma rx_M_range: "(v, r) \<in> set (rx_M s) \<Longrightarrow> v \<le> 59"
  unfolding rx_M_def rx_alt_set
  using rx_two_range [of v r 0 5 0 9 s] rx_digit_set [of v r 0 9 s]
  by auto


lemma hour24_I: "1 \<le> h \<Longrightarrow> h \<le> 12 \<Longrightarrow> hour24 h (Some p) < 24"
  by (cases p) (auto simp: hour24_def)

lemma format_regex_range:
  assumes "((h, m, p), r) \<in> set (format_regex fmt s)"
  shows "hour24 h p < 24 \<and> m < 60"
proof (cases fmt)
  case Fmt_I_M_space_p
  from assms obtain r1 r2 r3 q where "(h, r1) \<in> set (rx_I s)" "(m, r3) \<in> set (rx_M r2)" "p = Some q"
    unfolding Fmt_I_M_space_p format_regex.simps rx_bind_set rx_return_set by blast
  then show ?thesis using rx_I_range [of h r1 s] rx_M_range [of m r3 r2] hour24_I [of h q] by simp
next
  case Fmt_H_M
  from assms obtain r1 r2 r3 where "(h, r1) \<in> set (rx_H s)" "(m, r3) \<in> set (rx_M r2)" "p = None"
    unfolding Fmt_H_M format_regex.simps rx_bind_set rx_return_set by blast
  then show ?thesis using rx_H_range [of h r1 s] rx_M_range [of m r3 r2] by (simp add: hour24_def)
next
  case Fmt_I_p
  from assms obtain r1 q where "(h, r1) \<in> set (rx_I s)" "m = 0" "p = Some q"
    unfolding Fmt_I_p format_regex.simps rx_bind_set rx_return_set by blast
  then show ?thesis using rx_I_range [of h r1 s] hour24_I [of h q] by simp
next
  case Fmt_I_M_p
  from assms obtain r1 r2 r3 q where "(h, r1) \<in> set (rx_I s)" "(m, r3) \<in> set (rx_M r2)" "p = Some q"
    unfolding Fmt_I_M_p format_regex.simps rx_bind_set rx_return_set by blast
  then show ?thesis using rx_I_range [of h r1 s] rx_M_range [of m r3 r2] hour24_I [of h q] by simp
qed

lemma strptime_range:
  assumes "strptime t fmt = Inr d"
  shows "dt_hour d < 24 \<and> dt_minute d < 60"
proof (cases "format_regex fmt t")
  case Nil
  then show ?thesis using assms by (simp add: strptime_def)
next
  case (Cons x xs)
  obtain h m p r where x: "x = ((h, m, p), r)" by (cases x) auto
  have "((h, m, p), r) \<in> set (format_regex fmt t)" using Cons x by simp
  then have "hour24 h p < 24 \<and> m < 60" by (rule format_regex_range)
  then show ?thesis using assms Cons x
    by (auto simp: strptime_def split: if_splits)
qed

lemma first_parse_range:
  assumes "first_parse t fmts = Some d"
  shows "dt_hour d < 24 \<and> dt_minute d < 60"
proof -
  from assms obtain fmt where "strptime t fmt = Inr d"
    by (auto simp: first_parse_def split: option.splits sum.splits)
  then show ?thesis by (rule strptime_range)
qed

lemma lstrip_two_digits:
  assumes "1 \<le> k" "k \<le> 12"
  shows "py_lstrip_char CHR ''0'' (two_digits k @ rest) =
      (if k < 10 then [digit_char k] else [digit_char (k div 10), digit_char (k mod 10)]) @ rest"
proof -
  have "k = 1 \<or> k = 2 \<or> k = 3 \<or> k = 4 \<or> k = 5 \<or> k = 6 \<or> k = 7 \<or> k = 8 \<or> k = 9
        \<or> k = 10 \<or> k = 11 \<or> k = 12"
    using assms by arith
  then show ?thesis
    by (elim disjE) (simp_all add: py_lstrip_char_def two_digits_def digit_char_def char_of_eq_iff)
qed


lemma lstrip_clock:
  assumes "dt_hour d < 24" "dt_minute d < 60"
  shows "py_lstrip_char CHR ''0'' (strftime_I_M_p d) = clock12 (dt_hour d) (dt_minute d)"
proof -
  define k where "k = (if dt_hour d mod 12 = 0 then 12 else dt_hour d mod 12)"
  have k: "1 \<le> k" "k \<le> 12"
    unfolding k_def by (simp_all add: Suc_le_eq less_imp_le)
  have m: "dt_minute d div 10 mod 10 = dt_minute d div 10"
    using assms(2) by simp
  have "strftime_I_M_p d =
      two_digits k @ ('':'' @ two_digits (dt_minute d) @ '' '' @
        (if dt_hour d < 12 then ''AM'' else ''PM''))"
    by (simp add: strftime_I_M_p_def k_def)
  then show ?thesis
    using lstrip_two_digits [OF k] m
    by (simp add: clock12_def k_def [symmetric] two_digits_def digit_char_def)
qed

lemma add_hours_fields:
  "dt_hour (add_hours d k) = (dt_hour d + k) mod 24 \<and> dt_minute (add_hours d k) = dt_minute d"
  by (simp add: add_hours_def Let_def)

lemma calculate_end_time_Text:
  "calculate_end_time (Text s) =
     Inr (case parse_time (py_strip s) of
            None \<Rightarrow> s @ '' - '' @ s
          | Some (h, m) \<Rightarrow> clock12 h m @ '' - '' @ clock12 ((h + 2) mod 24) m)"
proof (cases "first_parse (py_strip s) time_formats")
  case None
  then show ?thesis
    by (simp add: calculate_end_time_def calculate_end_time_body_def try_formats_Text
        parse_time_def py_str_def)
next
  case (Some d)
  have r: "dt_hour d < 24" "dt_minute d < 60"
    using first_parse_range [OF Some] by simp_all
  have r2: "dt_hour (add_hours d 2) < 24" "dt_minute (add_hours d 2) < 60"
    using r by (simp_all add: add_hours_fields)
  show ?thesis
    using Some lstrip_clock [OF r] lstrip_clock [OF r2]
    by (simp add: calculate_end_time_def calculate_end_time_body_def try_formats_Text
        parse_time_def add_hours_fields Let_def)
qed

lemma parse_time_range: "parse_time t = Some (h, m) \<Longrightarrow> h < 24 \<and> m < 60"
  by (auto simp: parse_time_def dest: first_parse_range)


lemma digit_char_code: "d < 10 \<Longrightarrow> (of_char (digit_char d) :: nat) = 48 + d"
proof -
  assume "d < 10"
  then have "(48 + d) mod 256 = 48 + d" by simp
  then show ?thesis by (simp add: digit_char_def of_char_of)
qed

lemma rx_digit_digit_char:
  "d < 10 \<Longrightarrow>
   rx_digit lo hi (digit_char d # rest) = (if lo \<le> d \<and> d \<le> hi then [(d, rest)] else [])"
  by (simp add: rx_digit_def is_digit_def digit_val_def digit_char_code Let_def)

lemma rx_digit_other: "\<not> is_digit c \<Longrightarrow> rx_digit lo hi (c # rest) = []"
  by (simp add: rx_digit_def)

lemma rx_digit_Nil: "rx_digit lo hi [] = []"
  by (simp add: rx_digit_def)

lemma colon_not_digit: "\<not> is_digit CHR '':''" "\<not> is_digit CHR '' ''"
  by (simp_all add: is_digit_def)

lemma rx_I_hour:
  assumes "1 \<le> k" "k \<le> 12" "\<not> is_digit c"
  shows "\<exists>others. rx_I ((if k < 10 then [digit_char k]
                            else [digit_char (k div 10), digit_char (k mod 10)]) @ c # rest)
                     = (k, c # rest) # others"
proof (cases "k < 10")
  case True
  have "rx_I (digit_char k # c # rest) = [(k, c # rest)]"
    using True assms
    by (auto simp: rx_I_def rx_alt_def rx_two_def rx_bind_def rx_return_def
        rx_digit_digit_char rx_digit_other)
  then show ?thesis using True by simp
next
  case False
  then have k: "k div 10 = 1" "k mod 10 < 10" "k mod 10 \<le> 2" "k = 10 + k mod 10"
    using assms(2) by arith+
  have "rx_I (digit_char 1 # digit_char (k mod 10) # c # rest)
        = [(10 + k mod 10, c # rest), (1, digit_char (k mod 10) # c # rest)]"
    using k assms
    by (simp add: rx_I_def rx_alt_def rx_two_def rx_bind_def rx_return_def
        rx_digit_digit_char rx_digit_other)
  then show ?thesis using False k by auto
qed

lemma rx_M_minute:
  assumes "m < 60"
  shows "rx_M (digit_char (m div 10) # digit_char (m mod 10) # rest)
         = [(m, rest), (m div 10, digit_char (m mod 10) # rest)]"
proof -
  have d: "m div 10 < 10" "m div 10 \<le> 5" "m mod 10 < 10" "m mod 10 \<le> 9"
    "10 * (m div 10) + m mod 10 = m"
    using assms by arith+
  show ?thesis
    using d
    by (simp add: rx_M_def rx_alt_def rx_two_def rx_bind_def rx_return_def rx_digit_digit_char)
qed

lemma digit_char_not_space: "d < 10 \<Longrightarrow> \<not> py_isspace (digit_char d)"
  by (simp add: py_isspace_def digit_char_code Let_def)

lemma am_pm_lower:
  "lower_char CHR ''A'' = CHR ''a''" "lower_char CHR ''P'' = CHR ''p''"
  "lower_char CHR ''M'' = CHR ''m''" "lower_char CHR ''a'' = CHR ''a''"
  "lower_char CHR ''p'' = CHR ''p''" "lower_char CHR ''m'' = CHR ''m''"
  "lower_char CHR '':'' = CHR '':''"
  by code_simp+

lemma rx_tail_suffix:
  assumes "d < 10"
  shows "rx_bind rx_ws (\<lambda>_. rx_bind rx_p (\<lambda>p. rx_return (h, m, Some p))) '' PM''
           = [((h, m, Some True), [])]"
    and "rx_bind rx_ws (\<lambda>_. rx_bind rx_p (\<lambda>p. rx_return (h, m, Some p))) '' AM''
           = [((h, m, Some False), [])]"
    and "rx_bind rx_ws f (digit_char d # rest) = []"
proof -
  show "rx_bind rx_ws (\<lambda>_. rx_bind rx_p (\<lambda>p. rx_return (h, m, Some p))) '' PM''
           = [((h, m, Some True), [])]"
    using am_pm_lower
    by (simp add: rx_bind_def rx_ws_def rx_p_def rx_alt_def rx_lit_def rx_return_def
        py_isspace_def)
  show "rx_bind rx_ws (\<lambda>_. rx_bind rx_p (\<lambda>p. rx_return (h, m, Some p))) '' AM''
           = [((h, m, Some False), [])]"
    using am_pm_lower
    by (simp add: rx_bind_def rx_ws_def rx_p_def rx_alt_def rx_lit_def rx_return_def
        py_isspace_def)
  show "rx_bind rx_ws f (digit_char d # rest) = []"
    using digit_char_not_space [OF assms] by (simp add: rx_bind_def rx_ws_def)
qed

lemma hour24_hour12:
  "H < 24 \<Longrightarrow> hour24 (if H mod 12 = 0 then 12 else H mod 12) (Some (\<not> H < 12)) = H"
proof (cases "H < 12")
  case True
  then have "H mod 12 = H" by simp
  then show ?thesis using True by (simp add: hour24_def)
next
  case False
  assume "H < 24"
  with False have "H mod 12 = H - 12" "H \<ge> 12"
    by arith+
  then show ?thesis using False \<open>H < 24\<close> by (auto simp: hour24_def)
qed

lemma strptime_clock12:
  assumes "H < 24" "m < 60"
  shows "strptime (clock12 H m) Fmt_I_M_space_p = Inr \<lparr>dt_day = 0, dt_hour = H, dt_minute = m\<rparr>"
proof -
  define k where "k = (if H mod 12 = 0 then 12 else H mod 12)"
  define pm where "pm = (\<not> H < 12)"
  define rest where "rest = [digit_char (m div 10), digit_char (m mod 10)] @ '' '' @
     (if pm then ''PM'' else ''AM'')"
  have k: "1 \<le> k" "k \<le> 12"
    by (auto simp: k_def)
  have c: "clock12 H m = (if k < 10 then [digit_char k]
       else [digit_char (k div 10), digit_char (k mod 10)]) @ CHR '':'' # rest"
    by (simp add: clock12_def k_def rest_def pm_def Let_def)
  obtain others where o: "rx_I (clock12 H m) = (k, CHR '':'' # rest) # others"
    using rx_I_hour [OF k colon_not_digit(1), of rest] unfolding c by (elim exE)
  have d: "m mod 10 < 10" by simp
  have t: "rx_bind (rx_lit CHR '':'') (\<lambda>_. rx_bind rx_M (\<lambda>m.
       rx_bind rx_ws (\<lambda>_. rx_bind rx_p (\<lambda>p. rx_return (k, m, Some p))))) (CHR '':'' # rest)
       = [((k, m, Some pm), [])]"
    by (cases pm)
      (simp_all add: rx_bind_def [of "rx_lit c" for c] rx_bind_def [of rx_M] rx_lit_def rest_def
        am_pm_lower rx_M_minute [OF assms(2)] rx_tail_suffix [OF d])
  have "\<exists>more. format_regex Fmt_I_M_space_p (clock12 H m) = ((k, m, Some pm), []) # more"
    using o t by (simp add: rx_bind_def [of rx_I])
  then show ?thesis
    using hour24_hour12 [OF assms(1)] by (auto simp: strptime_def k_def pm_def)
qed

lemma parse_time_clock12:
  assumes "H < 24" "m < 60"
  shows "parse_time (clock12 H m) = Some (H, m)"
  using strptime_clock12 [OF assms]
  by (simp add: parse_time_def first_parse_def time_formats_def)

lemma strip_pad:
  assumes "t \<noteq> []" "\<not> py_isspace (hd t)" "\<not> py_isspace (last t)"
    "list_all py_isspace a" "list_all py_isspace b"
  shows "py_strip (a @ t @ b) = t"
proof -
  have a: "dropWhile py_isspace (a @ t @ b) = t @ b"
    using assms(1,2,4) by (cases t) (simp_all add: dropWhile_append2 list_all_iff)
  have b: "dropWhile py_isspace (rev b @ rev t) = dropWhile py_isspace (rev t)"
    by (rule dropWhile_append2) (use assms(5) in \<open>simp add: list_all_iff\<close>)
  from assms(1) obtain x xs where r: "rev t = x # xs"
    by (cases "rev t") auto
  have "hd (rev t) = last t"
    using assms(1) by (simp add: hd_rev)
  then have "\<not> py_isspace x"
    using assms(3) r by simp
  then have "dropWhile py_isspace (rev t) = rev t"
    using r by simp
  with b have "dropWhile py_isspace (rev b @ rev t) = rev t"
    by simp
  then have "rev (dropWhile py_isspace (rev (t @ b))) = t"
    by simp
  then show ?thesis using a by (simp add: py_strip_def py_lstrip_def py_rstrip_def)
qed

lemma clock12_ends:
  assumes "H < 24" "m < 60"
  shows "clock12 H m \<noteq> [] \<and> \<not> py_isspace (hd (clock12 H m)) \<and> \<not> py_isspace (last (clock12 H m))"
proof -
  define k where "k = (if H mod 12 = 0 then 12 else H mod 12)"
  have "k div 10 < 10"
    by (auto simp: k_def)
  then have h: "\<not> py_isspace (digit_char (k div 10))" "k < 10 \<Longrightarrow> \<not> py_isspace (digit_char k)"
    by (simp_all add: digit_char_not_space)
  have l: "\<not> py_isspace CHR ''M''"
    by (simp add: py_isspace_def)
  show ?thesis
    using h l by (simp add: clock12_def Let_def k_def [symmetric])
qed

lemma strip_clock12:
  assumes "H < 24" "m < 60" "list_all py_isspace a" "list_all py_isspace b"
  shows "py_strip (a @ clock12 H m @ b) = clock12 H m"
  using clock12_ends [OF assms(1,2)] assms(3,4) by (simp add: strip_pad)

lemma calculate_end_time_clock12:
  assumes "H < 24" "m < 60" "list_all py_isspace a" "list_all py_isspace b"
  shows "calculate_end_time (Text (a @ clock12 H m @ b))
         = Inr (clock12 H m @ '' - '' @ clock12 ((H + 2) mod 24) m)"
  by (simp add: calculate_end_time_Text strip_clock12 [OF assms] parse_time_clock12 [OF assms(1,2)])


text \<open>
  C3: the time range of a text is decided by the first of the four formats, tried in
  the order of the source on the trimmed text, that parses it: the start and the start
  plus two hours modulo 24, both on the 12-hour clock without leading zero and with the
  AM/PM suffix; if no format parses, the untrimmed text twice. A parsed time has an hour
  below 24 and a minute below 60. Every time of day, written on the 12-hour clock with
  any whitespace around it, is read back as itself, so that its range is the time and
  the time two hours later. The examples of the specification hold, and so do examples
  of each format, of noon and midnight, of surrounding and inner whitespace, and of texts
  that no format parses.
\<close>

theorem calculate_end_time_spec:
  "calculate_end_time (Text s) =
     Inr (case parse_time (py_strip s) of
            None \<Rightarrow> s @ '' - '' @ s
          | Some (h, m) \<Rightarrow> clock12 h m @ '' - '' @ clock12 ((h + 2) mod 24) m) \<and>
   (\<forall>h m. parse_time t = Some (h, m) \<longrightarrow> h < 24 \<and> m < 60) \<and>
   (\<forall>H m a b. H < 24 \<and> m < 60 \<and> list_all py_isspace a \<and> list_all py_isspace b \<longrightarrow>
      parse_time (py_strip (a @ clock12 H m @ b)) = Some (H, m) \<and>
      calculate_end_time (Text (a @ clock12 H m @ b))
        = Inr (clock12 H m @ '' - '' @ clock12 ((H + 2) mod 24) m)) \<and>
   time_formats = [Fmt_I_M_space_p, Fmt_H_M, Fmt_I_p, Fmt_I_M_p] \<and>
   calculate_end_time (Text ''7:30 PM'') = Inr ''7:30 PM - 9:30 PM'' \<and>
   calculate_end_time (Text ''19:30'') = Inr ''7:30 PM - 9:30 PM'' \<and>
   calculate_end_time (Text ''11:15 PM'') = Inr ''11:15 PM - 1:15 AM'' \<and>
   calculate_end_time (Text ''garbage'') = Inr ''garbage - garbage'' \<and>
   calculate_end_time (Text ''  7:30 PM  '') = Inr ''7:30 PM - 9:30 PM'' \<and>
   calculate_end_time (Text '' garbage '') = Inr '' garbage  -  garbage '' \<and>
   calculate_end_time (Text ''12:05 AM'') = Inr ''12:05 AM - 2:05 AM'' \<and>
   calculate_end_time (Text ''12:30 PM'') = Inr ''12:30 PM - 2:30 PM'' \<and>
   calculate_end_time (Text ''10:45 am'') = Inr ''10:45 AM - 12:45 PM'' \<and>
   calculate_end_time (Text ''00:15'') = Inr ''12:15 AM - 2:15 AM'' \<and>
   calculate_end_time (Text ''23:05'') = Inr ''11:05 PM - 1:05 AM'' \<and>
   calculate_end_time (Text ''7PM'') = Inr ''7:00 PM - 9:00 PM'' \<and>
   calculate_end_time (Text ''12am'') = Inr ''12:00 AM - 2:00 AM'' \<and>
   calculate_end_time (Text ''7:30pm'') = Inr ''7:30 PM - 9:30 PM'' \<and>
   calculate_end_time (Text ''1:5 AM'') = Inr ''1:05 AM - 3:05 AM'' \<and>
   calculate_end_time (Text (''7:30'' @ [CHR 0xA0] @ ''PM'')) = Inr ''7:30 PM - 9:30 PM'' \<and>
   calculate_end_time (Text ([CHR 0xA0] @ ''7:30 PM'' @ [CHR 0x85])) = Inr ''7:30 PM - 9:30 PM'' \<and>
   calculate_end_time (Text ''13:00 PM'') = Inr ''13:00 PM - 13:00 PM'' \<and>
   calculate_end_time (Text ''24:00'') = Inr ''24:00 - 24:00'' \<and>
   calculate_end_time (Text ''7:60 PM'') = Inr ''7:60 PM - 7:60 PM'' \<and>
   calculate_end_time (Text ''7 PM'') = Inr ''7 PM - 7 PM''"
proof -
  have e1: "calculate_end_time (Text ''7:30 PM'') = Inr ''7:30 PM - 9:30 PM''"
    by code_simp
  have e2: "calculate_end_time (Text ''19:30'') = Inr ''7:30 PM - 9:30 PM''"
    by code_simp
  have e3: "calculate_end_time (Text ''11:15 PM'') = Inr ''11:15 PM - 1:15 AM''"
    by code_simp
  have e4: "calculate_end_time (Text ''garbage'') = Inr ''garbage - garbage''"
    by code_simp
  have e5: "calculate_end_time (Text ''  7:30 PM  '') = Inr ''7:30 PM - 9:30 PM''"
    by code_simp
  have e6: "calculate_end_time (Text '' garbage '') = Inr '' garbage  -  garbage ''"
    by code_simp
  have e7: "calculate_end_time (Text ''12:05 AM'') = Inr ''12:05 AM - 2:05 AM''"
    by code_simp
  have e8: "calculate_end_time (Text ''12:30 PM'') = Inr ''12:30 PM - 2:30 PM''"
    by code_simp
  have e9: "calculate_end_time (Text ''10:45 am'') = Inr ''10:45 AM - 12:45 PM''"
    by code_simp
  have e10: "calculate_end_time (Text ''00:15'') = Inr ''12:15 AM - 2:15 AM''"
    by code_simp
  have e11: "calculate_end_time (Text ''23:05'') = Inr ''11:05 PM - 1:05 AM''"
    by code_simp
  have e12: "calculate_end_time (Text ''7PM'') = Inr ''7:00 PM - 9:00 PM''"
    by code_simp
  have e13: "calculate_end_time (Text ''12am'') = Inr ''12:00 AM - 2:00 AM''"
    by code_simp
  have e14: "calculate_end_time (Text ''7:30pm'') = Inr ''7:30 PM - 9:30 PM''"
    by code_simp
  have e15: "calculate_end_time (Text ''1:5 AM'') = Inr ''1:05 AM - 3:05 AM''"
    by code_simp
  have e16: "calculate_end_time (Text (''7:30'' @ [CHR 0xA0] @ ''PM'')) = Inr ''7:30 PM - 9:30 PM''"
    by code_simp
  have e17: "calculate_end_time (Text ([CHR 0xA0] @ ''7:30 PM'' @ [CHR 0x85])) = Inr ''7:30 PM - 9:30 PM''"
    by code_simp
  have e18: "calculate_end_time (Text ''13:00 PM'') = Inr ''13:00 PM - 13:00 PM''"
    by code_simp
  have e19: "calculate_end_time (Text ''24:00'') = Inr ''24:00 - 24:00''"
    by code_simp
  have e20: "calculate_end_time (Text ''7:60 PM'') = Inr ''7:60 PM - 7:60 PM''"
    by code_simp
  have e21: "calculate_end_time (Text ''7 PM'') = Inr ''7 PM - 7 PM''"
    by code_simp
  have r: "\<forall>h m. parse_time t = Some (h, m) \<longrightarrow> h < 24 \<and> m < 60"
    using parse_time_range by blast
  have c: "\<forall>H m a b. H < 24 \<and> m < 60 \<and> list_all py_isspace a \<and> list_all py_isspace b \<longrightarrow>
      parse_time (py_strip (a @ clock12 H m @ b)) = Some (H, m) \<and>
      calculate_end_time (Text (a @ clock12 H m @ b))
        = Inr (clock12 H m @ '' - '' @ clock12 ((H + 2) mod 24) m)"
    by (simp add: calculate_end_time_clock12 strip_clock12 parse_time_clock12)
  have f: "time_formats = [Fmt_I_M_space_p, Fmt_H_M, Fmt_I_p, Fmt_I_M_p]"
    by (simp add: time_formats_def)
  show ?thesis
    by (intro conjI calculate_end_time_Text r c f e1 e2 e3 e4 e5 e6 e7 e8 e9 e10 e11 e12 e13 e14 e15 e16 e17 e18 e19 e20 e21)
qed

theorem calculate_end_time_spec_witness:
  "parse_time ''7pm'' = Some (19, 0) \<and> (19::nat) < 24 \<and> (0::nat) < 60 \<and>
   list_all py_isspace ''  '' \<and>
   calculate_end_time (Text (''  '' @ clock12 0 5 @ ''  '')) = Inr ''12:05 AM - 2:05 AM''"
proof -
  have p: "parse_time ''7pm'' = Some (19, 0)"
    by code_simp
  have w: "list_all py_isspace ''  ''"
    by code_simp
  have k: "clock12 0 5 @ '' - '' @ clock12 ((0 + 2) mod 24) 5 = ''12:05 AM - 2:05 AM''"
    by code_simp
  note t = calculate_end_time_spec [of "''7pm''" "''7pm''"]
  from t have "\<forall>h m. parse_time ''7pm'' = Some (h, m) \<longrightarrow> h < 24 \<and> m < 60"
    by (elim conjE)
  with p have a: "(19::nat) < 24 \<and> (0::nat) < 60"
    by simp
  from t have "\<forall>H m a b. H < 24 \<and> m < 60 \<and> list_all py_isspace a \<and> list_all py_isspace b \<longrightarrow>
      parse_time (py_strip (a @ clock12 H m @ b)) = Some (H, m) \<and>
      calculate_end_time (Text (a @ clock12 H m @ b))
        = Inr (clock12 H m @ '' - '' @ clock12 ((H + 2) mod 24) m)"
    by (elim conjE)
  from this [rule_format, of 0 5 "''  ''" "''  ''"] w
  have "calculate_end_time (Text (''  '' @ clock12 0 5 @ ''  ''))
        = Inr (clock12 0 5 @ '' - '' @ clock12 ((0 + 2) mod 24) 5)"
    by (simp del: append.simps mod_less)
  then have "calculate_end_time (Text (''  '' @ clock12 0 5 @ ''  '')) = Inr ''12:05 AM - 2:05 AM''"
    by (simp only: k)
  with p a w show ?thesis by simp
qed

section \<open>Style configuration: the fallback\<close>

text \<open>
  C8, as the specification states it, fails for a source that is there but cannot be
  read: the exception leaves \<^verbatim>\<open>load_design_specs\<close> and ends the run.
\<close>

theorem load_design_specs_unreadable_counterexample:
  "load_design_specs Unreadable = Inl PermissionError \<and>
   load_design_specs Unreadable \<noteq> Inr (get_default_specs, [Warning_specs_not_found]) \<and>
   main accepting Unreadable None All_bookings (\<lambda>d. d) False = Inl PermissionError"
  by (simp add: load_design_specs_def open_and_load_def main_def)

text \<open>
  C8, amended: if the style configuration source is absent, the built-in defaults are
  used (font family Helvetica, title size 14, content size 12, card 3.5 by 2.5, margin
  0.5, white background, black text, border on, gray border), a warning is shown and the
  run goes on; a source that is present but unreadable or not JSON is not handled, and
  the exception ends the run.
\<close>

theorem load_design_specs_absent_defaults:
  "load_design_specs Absent = Inr (get_default_specs, [Warning_specs_not_found]) \<and>
   get_default_specs =
     \<lparr>font_family = ''Helvetica'', title_font_size = 14, content_font_size = 12,
      card_width = 7 / 2, card_height = 5 / 2, margin = 1 / 2,
      background_color = ''white'', text_color = ''black'',
      border = True, border_color = ''gray''\<rparr> \<and>
   (\<exists>shown. main lib Absent uploaded_file filter_option edit clicked
              = Inr (Page_title # Specs_notice Warning_specs_not_found # shown)) \<and>
   load_design_specs Unreadable = Inl PermissionError \<and>
   load_design_specs Malformed = Inl JSONDecodeError \<and>
   main lib Unreadable uploaded_file filter_option edit clicked = Inl PermissionError \<and>
   main lib Malformed uploaded_file filter_option edit clicked = Inl JSONDecodeError"
  by (simp add: load_design_specs_def open_and_load_def main_def get_default_specs_def Let_def)

section \<open>The normalizers return\<close>

lemma split_on_chars: "seg \<in> set (py_split_on sep s) \<Longrightarrow> set seg \<subseteq> set s"
proof (induction sep s rule: py_split_on.induct)
  case (1 sep s)
  show ?case
  proof (cases "dropWhile (\<lambda>x. x \<noteq> sep) s")
    case Nil
    then have "py_split_on sep s = [s]"
      by (subst py_split_on.simps) (simp only: Nil list.case)
    then show ?thesis using "1.prems" by simp
  next
    case (Cons c cs)
    have eq: "py_split_on sep s = takeWhile (\<lambda>x. x \<noteq> sep) s # py_split_on sep cs"
      by (subst py_split_on.simps) (simp only: Cons list.case)
    have sub: "set cs \<subseteq> set s"
      using set_dropWhileD [of _ "\<lambda>x. x \<noteq> sep" s] Cons by auto
    from "1.prems" eq consider "seg = takeWhile (\<lambda>x. x \<noteq> sep) s" | "seg \<in> set (py_split_on sep cs)"
      by auto
    then show ?thesis
    proof cases
      case 1
      then show ?thesis using set_takeWhileD by fastforce
    next
      case 2
      then show ?thesis using "1.IH" [OF Cons] sub by blast
    qed
  qed
qed

lemma digit_runs_no_digit: "\<not> list_ex is_digit u \<Longrightarrow> digit_runs u = []"
proof -
  assume n: "\<not> list_ex is_digit u"
  have "\<not> list_ex is_digit seg" if "seg \<in> set (py_split_on CHR '','' u)" for seg
    using split_on_chars [OF that] n by (auto simp: list_ex_iff)
  then show ?thesis by (simp add: digit_runs_def filter_empty_conv)
qed


lemma calculate_end_time_Missing:
  "calculate_end_time_body Missing = Inl AttributeError \<and>
   calculate_end_time Missing = Inr ''nan - nan''"
  by (simp add: calculate_end_time_def calculate_end_time_body_def time_formats_def
      method_strip_def py_str_def)

lemma capitalize_customer_name_returns: "\<exists>s. capitalize_customer_name v = Inr s"
  by (simp add: capitalize_customer_name_def Let_def)

lemma extract_table_numbers_returns: "\<exists>s. extract_table_numbers v = Inr s"
  by (simp add: extract_table_numbers_def Let_def)

lemma calculate_end_time_returns: "\<exists>s. calculate_end_time v = Inr s"
  by (cases "calculate_end_time_body v") (simp_all add: calculate_end_time_def)

lemma py_split_empty: "py_split [] = []"
  by (subst py_split.simps) simp

lemma capitalize_customer_name_whitespace:
  "n \<noteq> [] \<Longrightarrow> py_strip n = [] \<Longrightarrow> capitalize_customer_name (Text n) = Inr []"
  by (simp add: capitalize_customer_name_def pd_isna_def py_str_def py_split_empty py_lower_def)

text \<open>
  C9: for every cell, text or missing, each of the three normalizers returns a text and
  raises nothing; the \<^verbatim>\<open>AttributeError\<close> that a missing time raises inside
  \<^verbatim>\<open>calculate_end_time\<close> is taken by its own handler. A missing or empty name gives
  \<^verbatim>\<open>Guest\<close>, a missing table text or one without a digit gives \<^verbatim>\<open>TBD\<close>, a time that
  no format parses gives the text twice, a missing time gives \<^verbatim>\<open>nan - nan\<close>. One
  malformed field is not degraded to its placeholder: a name that is not empty and holds
  only whitespace, three blanks for one, gives the empty text and not \<^verbatim>\<open>Guest\<close>.
\<close>

theorem normalizers_never_raise:
  "(\<exists>s. capitalize_customer_name v = Inr s) \<and>
   (\<exists>s. extract_table_numbers v = Inr s) \<and>
   (\<exists>s. calculate_end_time v = Inr s) \<and>
   capitalize_customer_name Missing = Inr ''Guest'' \<and>
   capitalize_customer_name (Text []) = Inr ''Guest'' \<and>
   (n \<noteq> [] \<and> py_strip n = [] \<longrightarrow> capitalize_customer_name (Text n) = Inr []) \<and>
   capitalize_customer_name (Text ''   '') = Inr [] \<and>
   capitalize_customer_name (Text ''   '') \<noteq> Inr ''Guest'' \<and>
   extract_table_numbers Missing = Inr ''TBD'' \<and>
   (\<not> list_ex is_digit u \<longrightarrow> extract_table_numbers (Text u) = Inr ''TBD'') \<and>
   calculate_end_time_body Missing = Inl AttributeError \<and>
   calculate_end_time Missing = Inr ''nan - nan'' \<and>
   (parse_time (py_strip t) = None \<longrightarrow> calculate_end_time (Text t) = Inr (t @ '' - '' @ t))"
proof -
  have g: "capitalize_customer_name Missing = Inr ''Guest''"
    by (simp add: capitalize_customer_name_def pd_isna_def)
  have e: "capitalize_customer_name (Text []) = Inr ''Guest''"
    by (simp add: capitalize_customer_name_def pd_isna_def)
  have w: "n \<noteq> [] \<and> py_strip n = [] \<longrightarrow> capitalize_customer_name (Text n) = Inr []"
    by (simp add: capitalize_customer_name_whitespace)
  have b: "capitalize_customer_name (Text ''   '') = Inr []"
    by code_simp
  have b2: "capitalize_customer_name (Text ''   '') \<noteq> Inr ''Guest''"
    by (simp add: b)
  have d: "\<not> list_ex is_digit u \<longrightarrow> extract_table_numbers (Text u) = Inr ''TBD''"
    by (simp add: extract_Text digit_runs_no_digit)
  have p: "parse_time (py_strip t) = None \<longrightarrow> calculate_end_time (Text t) = Inr (t @ '' - '' @ t)"
    by (simp add: calculate_end_time_Text)
  have m: "calculate_end_time_body Missing = Inl AttributeError"
    "calculate_end_time Missing = Inr ''nan - nan''"
    using calculate_end_time_Missing by simp_all
  show ?thesis
    by (intro conjI capitalize_customer_name_returns extract_table_numbers_returns
        calculate_end_time_returns g e w b b2 extract_Missing d m p)
qed

theorem normalizers_never_raise_witness:
  "''   '' \<noteq> [] \<and> py_strip ''   '' = [] \<and> capitalize_customer_name (Text ''   '') = Inr [] \<and>
   \<not> list_ex is_digit ''abc'' \<and> extract_table_numbers (Text ''abc'') = Inr ''TBD'' \<and>
   parse_time (py_strip ''half past'') = None \<and>
   calculate_end_time (Text ''half past'') = Inr ''half past - half past''"
proof -
  have h0: "py_strip ''   '' = []"
    by code_simp
  have h1: "\<not> list_ex is_digit ''abc''"
    by (simp add: is_digit_def)
  have h2: "parse_time (py_strip ''half past'') = None"
    by code_simp
  note t = normalizers_never_raise [of Missing "''   ''" "''abc''" "''half past''"]
  from t have a: "''   '' \<noteq> [] \<and> py_strip ''   '' = [] \<longrightarrow>
      capitalize_customer_name (Text ''   '') = Inr []"
    by (elim conjE)
  from t have b: "\<not> list_ex is_digit ''abc'' \<longrightarrow> extract_table_numbers (Text ''abc'') = Inr ''TBD''"
    by (elim conjE)
  from t have c: "parse_time (py_strip ''half past'') = None \<longrightarrow>
         calculate_end_time (Text ''half past'') = Inr (''half past'' @ '' - '' @ ''half past'')"
    by (elim conjE)
  from a h0 have a': "capitalize_customer_name (Text ''   '') = Inr []"
    by simp
  from b h1 have b': "extract_table_numbers (Text ''abc'') = Inr ''TBD''"
    by simp
  from c h2 have c': "calculate_end_time (Text ''half past'') = Inr ''half past - half past''"
    by simp
  show ?thesis
    using h0 h1 h2 a' b' c' by simp
qed

section \<open>Names\<close>

lemma split_on_none: "sep \<notin> set x \<Longrightarrow> py_split_on sep x = [x]"
proof -
  assume "sep \<notin> set x"
  then have "dropWhile (\<lambda>c. c \<noteq> sep) x = []" by auto
  then show ?thesis by (subst py_split_on.simps) (simp only: list.case)
qed

lemma split_on_append:
  assumes "sep \<notin> set x"
  shows "py_split_on sep (x @ sep # rest) = x # py_split_on sep rest"
proof -
  have "dropWhile (\<lambda>c. c \<noteq> sep) (x @ sep # rest) = dropWhile (\<lambda>c. c \<noteq> sep) (sep # rest)"
    by (rule dropWhile_append2) (use assms in auto)
  then have d: "dropWhile (\<lambda>c. c \<noteq> sep) (x @ sep # rest) = sep # rest"
    by simp
  have "takeWhile (\<lambda>c. c \<noteq> sep) (x @ sep # rest) = x @ takeWhile (\<lambda>c. c \<noteq> sep) (sep # rest)"
    by (rule takeWhile_append2) (use assms in auto)
  then have t: "takeWhile (\<lambda>c. c \<noteq> sep) (x @ sep # rest) = x"
    by simp
  show ?thesis
    by (subst py_split_on.simps) (simp only: d t list.case)
qed

lemma split_on_join:
  "xs \<noteq> [] \<Longrightarrow> list_all (\<lambda>x. sep \<notin> set x) xs \<Longrightarrow> py_split_on sep (py_join [sep] xs) = xs"
proof (induction "[sep]" xs rule: py_join.induct)
  case 1
  then show ?case by simp
next
  case (2 x)
  then show ?case by (simp add: split_on_none)
next
  case (3 x y ys)
  then show ?case by (simp add: split_on_append)
qed

lemma first_digit_run_all_digits: "list_all is_digit r \<Longrightarrow> first_digit_run r = r"
proof -
  assume a: "list_all is_digit r"
  have "dropWhile (\<lambda>c. \<not> is_digit c) r = r"
    using a by (cases r) simp_all
  moreover have "takeWhile is_digit r = r"
    using a by (simp add: list_all_iff)
  ultimately show ?thesis by (simp add: first_digit_run_def)
qed

lemma first_digit_run_nonempty: "list_ex is_digit seg \<Longrightarrow> first_digit_run seg \<noteq> []"
proof -
  assume "list_ex is_digit seg"
  then have "findall_digits seg \<noteq> []" by (simp add: findall_digits_Nil)
  then obtain n ns where f: "findall_digits seg = n # ns" by (cases "findall_digits seg") auto
  have "n \<noteq> []"
    using f by (subst (asm) findall_digits.simps) (auto split: list.splits)
  then show ?thesis using findall_digits_hd [OF f] by simp
qed

lemma digit_runs_shape:
  "list_all (\<lambda>r. r \<noteq> [] \<and> list_all is_digit r) (digit_runs s)"
  using first_digit_run_digits first_digit_run_nonempty
  by (auto simp: digit_runs_def list_all_iff)

lemma comma_not_digit: "is_digit c \<Longrightarrow> c \<noteq> CHR '',''"
  by (auto simp: is_digit_def)

lemma digit_runs_join:
  assumes "rs \<noteq> []" "list_all (\<lambda>r. r \<noteq> [] \<and> list_all is_digit r) rs"
  shows "digit_runs (py_join '','' rs) = rs"
proof -
  have nc: "list_all (\<lambda>x. CHR '','' \<notin> set x) rs"
    using assms(2) comma_not_digit by (auto simp: list_all_iff)
  have sp: "py_split_on CHR '','' (py_join '','' rs) = rs"
    using split_on_join [OF assms(1) nc] by simp
  have fl: "filter (list_ex is_digit) rs = rs"
  proof -
    have "list_ex is_digit r" if "r \<in> set rs" for r
    proof -
      from that assms(2) have "r \<noteq> []" "list_all is_digit r" by (auto simp: list_all_iff)
      then show ?thesis by (cases r) simp_all
    qed
    then show ?thesis by simp
  qed
  have mp: "map first_digit_run rs = rs"
    using assms(2) by (auto simp: list_all_iff first_digit_run_all_digits intro: map_idI)
  show ?thesis by (simp add: digit_runs_def sp fl mp)
qed

lemma join_nonempty: "rs \<noteq> [] \<Longrightarrow> hd rs \<noteq> [] \<Longrightarrow> py_join sep rs \<noteq> []"
  by (induction sep rs rule: py_join.induct) simp_all

lemma extract_twice: "twice extract_table_numbers s = extract_table_numbers (Text s)"
proof (cases "s = [] \<or> digit_runs s = []")
  case True
  have "extract_table_numbers (Text ''TBD'') = Inr ''TBD''"
    by (simp add: extract_Text digit_runs_def py_split_on.simps is_digit_def)
  then show ?thesis using True by (auto simp: twice_def extract_Text)
next
  case False
  let ?rs = "digit_runs s"
  have sh: "list_all (\<lambda>r. r \<noteq> [] \<and> list_all is_digit r) ?rs" by (rule digit_runs_shape)
  have ne: "?rs \<noteq> []" using False by simp
  have hd: "hd ?rs \<noteq> []" using sh ne by (cases ?rs) simp_all
  have j: "py_join '','' ?rs \<noteq> []" using join_nonempty [OF ne hd] .
  have "extract_table_numbers (Text (py_join '','' ?rs)) = Inr (py_join '','' ?rs)"
    using j ne digit_runs_join [OF ne sh] by (simp add: extract_Text)
  then show ?thesis using False by (simp add: twice_def extract_Text)
qed

lemma of_char_lower:
  "(of_char (lower_char c) :: nat) =
     (if (65 \<le> (of_char c :: nat) \<and> (of_char c :: nat) \<le> 90) \<or>
         (192 \<le> (of_char c :: nat) \<and> (of_char c :: nat) \<le> 222 \<and> (of_char c :: nat) \<noteq> 215)
      then of_char c + 32 else of_char c)"
proof (cases "(65 \<le> (of_char c :: nat) \<and> (of_char c :: nat) \<le> 90) \<or>
         (192 \<le> (of_char c :: nat) \<and> (of_char c :: nat) \<le> 222 \<and> (of_char c :: nat) \<noteq> 215)")
  case True
  then have "(of_char c + 32 :: nat) < 256" by arith
  then have "(of_char c + 32) mod 256 = (of_char c + 32 :: nat)" by (rule mod_less)
  then show ?thesis using True by (auto simp: lower_char_def Let_def of_char_of)
next
  case False
  then show ?thesis by (auto simp: lower_char_def Let_def)
qed

lemma char_eqI: "(of_char a :: nat) = of_char b \<Longrightarrow> a = b"
  by (simp add: of_char_eq_iff)

lemma lower_lower: "lower_char (lower_char c) = lower_char c"
  by (rule char_eqI) (auto simp: of_char_lower)

lemma isspace_lower: "py_isspace (lower_char c) = py_isspace c"
  by (auto simp: py_isspace_def Let_def of_char_lower)

lemma title_char_cases:
  obtains (upper) "(97 \<le> (of_char c :: nat) \<and> (of_char c :: nat) \<le> 122) \<or>
         (224 \<le> (of_char c :: nat) \<and> (of_char c :: nat) \<le> 254 \<and> (of_char c :: nat) \<noteq> 247)"
      "title_char c = [char_of (of_char c - 32 :: nat)]"
      "(of_char (char_of (of_char c - 32 :: nat)) :: nat) = of_char c - 32"
  | (sharp) "(of_char c :: nat) = 223" "title_char c = ''Ss''"
  | (same) "\<not> ((97 \<le> (of_char c :: nat) \<and> (of_char c :: nat) \<le> 122) \<or>
         (224 \<le> (of_char c :: nat) \<and> (of_char c :: nat) \<le> 254 \<and> (of_char c :: nat) \<noteq> 247))"
      "(of_char c :: nat) \<noteq> 223" "title_char c = [c]"
proof (cases "(97 \<le> (of_char c :: nat) \<and> (of_char c :: nat) \<le> 122) \<or>
         (224 \<le> (of_char c :: nat) \<and> (of_char c :: nat) \<le> 254 \<and> (of_char c :: nat) \<noteq> 247)")
  case True
  then have "(of_char c - 32 :: nat) < 256" by arith
  then have "(of_char c - 32) mod 256 = (of_char c - 32 :: nat)" by (rule mod_less)
  then have "(of_char (char_of (of_char c - 32 :: nat)) :: nat) = of_char c - 32"
    by (simp add: of_char_of)
  moreover have "title_char c = [char_of (of_char c - 32 :: nat)]"
    using True by (auto simp: title_char_def Let_def)
  ultimately show ?thesis using True upper by blast
next
  case False
  show ?thesis
  proof (cases "(of_char c :: nat) = 223")
    case True
    then have "title_char c = ''Ss''" by (simp add: title_char_def Let_def)
    then show ?thesis using True sharp by blast
  next
    case f: False
    then have "title_char c = [c]" using False by (auto simp: title_char_def Let_def)
    then show ?thesis using False f same by blast
  qed
qed

lemma title_char_nonempty: "title_char c \<noteq> []"
  by (cases c rule: title_char_cases) simp_all

lemma title_char_space:
  "\<not> py_isspace c \<Longrightarrow> list_all (\<lambda>x. \<not> py_isspace x) (title_char c)"
proof (cases c rule: title_char_cases)
  case upper
  then show ?thesis by (auto simp: py_isspace_def Let_def)
next
  case sharp
  then show ?thesis by (simp add: py_isspace_def)
next
  case same
  assume "\<not> py_isspace c"
  then show ?thesis using same by simp
qed

lemma title_char_stable:
  "title_char c = t # ts \<Longrightarrow> title_char t = [t] \<and> map lower_char ts = ts"
proof (cases c rule: title_char_cases)
  case upper
  assume "title_char c = t # ts"
  then have t: "t = char_of (of_char c - 32 :: nat)" "ts = []" using upper by simp_all
  have "(of_char t :: nat) = of_char c - 32" using t upper by simp
  then have "title_char t = [t]" using upper(1) by (auto simp: title_char_def Let_def)
  then show ?thesis using t by simp
next
  case sharp
  assume "title_char c = t # ts"
  then have "t = CHR ''S''" "ts = ''s''" using sharp by simp_all
  then show ?thesis by (simp add: title_char_def lower_char_def)
next
  case same
  assume "title_char c = t # ts"
  then show ?thesis using same by simp
qed

lemma title_lower: "title_char (lower_char c) = title_char c"
proof (cases "(65 \<le> (of_char c :: nat) \<and> (of_char c :: nat) \<le> 90) \<or>
         (192 \<le> (of_char c :: nat) \<and> (of_char c :: nat) \<le> 222 \<and> (of_char c :: nat) \<noteq> 215)")
  case True
  then have l: "(of_char (lower_char c) :: nat) = of_char c + 32" by (simp add: of_char_lower)
  have "title_char (lower_char c) = [char_of (of_char c + 32 - 32 :: nat)]"
    using True l by (auto simp: title_char_def Let_def)
  moreover have "title_char c = [c]" using True by (auto simp: title_char_def Let_def)
  ultimately show ?thesis by simp
next
  case False
  then have "lower_char c = c" by (auto simp: lower_char_def Let_def)
  then show ?thesis by simp
qed

lemma py_split_Nil: "dropWhile py_isspace s = [] \<Longrightarrow> py_split s = []"
  by (subst py_split.simps) (simp only: list.case)

lemma py_split_Cons:
  "dropWhile py_isspace s = c # cs \<Longrightarrow>
   py_split s = (c # takeWhile (\<lambda>x. \<not> py_isspace x) cs)
                # py_split (dropWhile (\<lambda>x. \<not> py_isspace x) cs)"
  by (subst py_split.simps) (simp only: list.case)

lemma split_words: "list_all is_word (py_split s)"
proof (induction s rule: py_split.induct)
  case (1 s)
  show ?case
  proof (cases "dropWhile py_isspace s")
    case Nil
    then show ?thesis by (simp add: py_split_Nil)
  next
    case (Cons c cs)
    have nc: "\<not> py_isspace c" using dropWhile_Cons_not [OF Cons] .
    have "list_all (\<lambda>x. \<not> py_isspace x) (takeWhile (\<lambda>x. \<not> py_isspace x) cs)"
      by (auto simp: list_all_iff dest: set_takeWhileD)
    then have "is_word (c # takeWhile (\<lambda>x. \<not> py_isspace x) cs)"
      using nc by (simp add: is_word_def)
    then show ?thesis using "1.IH" [OF Cons] by (simp add: py_split_Cons [OF Cons])
  qed
qed

lemma py_split_lstrip: "py_split (dropWhile py_isspace s) = py_split s"
proof (cases "dropWhile py_isspace s")
  case Nil
  then have "dropWhile py_isspace (dropWhile py_isspace s) = []" by simp
  then show ?thesis using Nil by (simp only: py_split_Nil)
next
  case (Cons c cs)
  have "dropWhile py_isspace (dropWhile py_isspace s) = c # cs"
    using Cons dropWhile_Cons_not [OF Cons] by simp
  then show ?thesis using Cons by (simp only: py_split_Cons)
qed

lemma split_word_only:
  assumes "is_word w"
  shows "py_split w = [w]"
proof -
  obtain c cs where w: "w = c # cs" using assms by (cases w) (auto simp: is_word_def)
  have nc: "\<not> py_isspace c" "list_all (\<lambda>x. \<not> py_isspace x) cs"
    using assms w by (simp_all add: is_word_def)
  have d: "dropWhile py_isspace w = c # cs" using w nc by simp
  have t: "takeWhile (\<lambda>x. \<not> py_isspace x) cs = cs" using nc by (simp add: list_all_iff)
  have r: "dropWhile (\<lambda>x. \<not> py_isspace x) cs = []" using nc by (simp add: list_all_iff)
  show ?thesis using py_split_Cons [OF d] t r w by (simp add: py_split_Nil)
qed

lemma split_word_append:
  assumes "is_word w"
  shows "py_split (w @ '' '' @ rest) = w # py_split rest"
proof -
  obtain c cs where w: "w = c # cs" using assms by (cases w) (auto simp: is_word_def)
  have nc: "\<not> py_isspace c" "list_all (\<lambda>x. \<not> py_isspace x) cs"
    using assms w by (simp_all add: is_word_def)
  have sp: "py_isspace CHR '' ''" by (simp add: py_isspace_def)
  have d: "dropWhile py_isspace (w @ '' '' @ rest) = c # (cs @ CHR '' '' # rest)"
    using w nc by simp
  have "takeWhile (\<lambda>x. \<not> py_isspace x) (cs @ CHR '' '' # rest)
        = cs @ takeWhile (\<lambda>x. \<not> py_isspace x) (CHR '' '' # rest)"
    by (rule takeWhile_append2) (use nc in \<open>auto simp: list_all_iff\<close>)
  then have t: "takeWhile (\<lambda>x. \<not> py_isspace x) (cs @ CHR '' '' # rest) = cs"
    using sp by simp
  have "dropWhile (\<lambda>x. \<not> py_isspace x) (cs @ CHR '' '' # rest)
        = dropWhile (\<lambda>x. \<not> py_isspace x) (CHR '' '' # rest)"
    by (rule dropWhile_append2) (use nc in \<open>auto simp: list_all_iff\<close>)
  then have r: "dropWhile (\<lambda>x. \<not> py_isspace x) (cs @ CHR '' '' # rest) = CHR '' '' # rest"
    using sp by simp
  have "py_split (CHR '' '' # rest) = py_split rest"
    using py_split_lstrip [of "CHR '' '' # rest"] sp py_split_lstrip [of rest] by simp
  then show ?thesis using py_split_Cons [OF d] t r w by simp
qed

lemma split_join_words: "list_all is_word ws \<Longrightarrow> py_split (py_join '' '' ws) = ws"
proof (induction "'' ''" ws rule: py_join.induct)
  case 1
  show ?case by (simp add: py_split_Nil)
next
  case (2 x)
  then show ?case by (simp add: split_word_only)
next
  case (3 x y ys)
  then show ?case using split_word_append [of x "py_join '' '' (y # ys)"] by simp
qed

lemma capitalize_words_eq:
  "list_all is_word ws \<Longrightarrow> capitalize_words ws = map py_capitalize ws"
  by (induction ws) (simp_all add: is_word_def)

lemma cap_word: "is_word w \<Longrightarrow> is_word (py_capitalize w)"
proof (cases w)
  case Nil
  assume "is_word w"
  then show ?thesis using Nil by (simp add: is_word_def)
next
  case (Cons c cs)
  assume "is_word w"
  then have c: "\<not> py_isspace c" and cs: "list_all (\<lambda>x. \<not> py_isspace x) cs"
    using Cons by (simp_all add: is_word_def)
  have "list_all (\<lambda>x. \<not> py_isspace x) (map lower_char cs)"
    using cs by (simp add: list_all_iff isspace_lower)
  then show ?thesis
    using Cons title_char_space [OF c] title_char_nonempty [of c]
    by (simp add: is_word_def py_capitalize_def)
qed

lemma cap_cap: "py_capitalize (py_capitalize w) = py_capitalize w"
proof (cases w)
  case Nil
  then show ?thesis by (simp add: py_capitalize_def)
next
  case (Cons c cs)
  obtain t ts where t: "title_char c = t # ts"
    using title_char_nonempty [of c] by (cases "title_char c") simp_all
  have s: "title_char t = [t]" "map lower_char ts = ts"
    using title_char_stable [OF t] by simp_all
  have "py_capitalize (t # ts @ map lower_char cs) = t # ts @ map lower_char cs"
    using s by (simp add: py_capitalize_def lower_lower)
  then show ?thesis using Cons t by (simp add: py_capitalize_def)
qed

lemma cap_lower: "py_capitalize (py_lower w) = py_capitalize w"
  by (cases w) (simp_all add: py_capitalize_def py_lower_def title_lower lower_lower)

lemma split_lower: "py_split (py_lower s) = map py_lower (py_split s)"
proof (induction s rule: py_split.induct)
  case (1 s)
  have dm: "dropWhile py_isspace (map lower_char s) = map lower_char (dropWhile py_isspace s)"
    by (simp add: dropWhile_map comp_def isspace_lower)
  show ?case
  proof (cases "dropWhile py_isspace s")
    case Nil
    then show ?thesis using dm by (simp add: py_lower_def py_split_Nil)
  next
    case (Cons c cs)
    have d: "dropWhile py_isspace (py_lower s)
             = lower_char c # map lower_char cs"
      using dm Cons by (simp add: py_lower_def)
    have t: "takeWhile (\<lambda>x. \<not> py_isspace x) (map lower_char cs)
             = map lower_char (takeWhile (\<lambda>x. \<not> py_isspace x) cs)"
      by (simp add: takeWhile_map comp_def isspace_lower)
    have r: "dropWhile (\<lambda>x. \<not> py_isspace x) (map lower_char cs)
             = map lower_char (dropWhile (\<lambda>x. \<not> py_isspace x) cs)"
      by (simp add: dropWhile_map comp_def isspace_lower)
    have "py_split (py_lower s) =
        (lower_char c # map lower_char (takeWhile (\<lambda>x. \<not> py_isspace x) cs))
        # py_split (py_lower (dropWhile (\<lambda>x. \<not> py_isspace x) cs))"
      using py_split_Cons [OF d] by (simp only: t r py_lower_def)
    also have "\<dots> = map py_lower (py_split s)"
      using "1.IH" [OF Cons] by (simp add: py_split_Cons [OF Cons] py_lower_def)
    finally show ?thesis .
  qed
qed

lemma join_hd: "ws \<noteq> [] \<Longrightarrow> hd ws \<noteq> [] \<Longrightarrow> hd (py_join sep ws) = hd (hd ws)"
  by (induction sep ws rule: py_join.induct) simp_all

lemma join_all_space:
  "list_all is_word ws \<Longrightarrow> ws \<noteq> [] \<Longrightarrow> \<not> list_all py_isspace (py_join '' '' ws)"
proof -
  assume a: "list_all is_word ws" "ws \<noteq> []"
  then have h: "hd ws \<noteq> []" "\<not> py_isspace (hd (hd ws))"
    by (cases ws; cases "hd ws"; simp add: is_word_def)+
  have "py_join '' '' ws \<noteq> []" using a(2) h(1) by (rule join_nonempty)
  moreover have "\<not> py_isspace (hd (py_join '' '' ws))" using join_hd [OF a(2) h(1)] h(2) by simp
  ultimately show ?thesis by (cases "py_join '' '' ws") simp_all
qed

lemma join_nonempty_last: "ws \<noteq> [] \<Longrightarrow> last ws \<noteq> [] \<Longrightarrow> py_join sep ws \<noteq> []"
  by (induction sep ws rule: py_join.induct) simp_all

lemma join_last: "ws \<noteq> [] \<Longrightarrow> last ws \<noteq> [] \<Longrightarrow> last (py_join sep ws) = last (last ws)"
proof (induction sep ws rule: py_join.induct)
  case (3 sep x y ys)
  have "py_join sep (y # ys) \<noteq> []"
    using 3(3) by (intro join_nonempty_last) simp_all
  then show ?case using 3 by simp
qed simp_all

lemma strip_id:
  assumes "s \<noteq> []" "\<not> py_isspace (hd s)" "\<not> py_isspace (last s)"
  shows "py_strip s = s"
proof -
  have l: "py_lstrip s = s" using assms by (cases s) (simp_all add: py_lstrip_def)
  have "rev s \<noteq> []" "\<not> py_isspace (hd (rev s))" using assms by (simp_all add: hd_rev)
  then have "dropWhile py_isspace (rev s) = rev s" by (cases "rev s") simp_all
  then have "py_rstrip s = s" by (simp add: py_rstrip_def)
  then show ?thesis using l by (simp add: py_strip_def)
qed

lemma word_ends: "is_word w \<Longrightarrow> \<not> py_isspace (hd w) \<and> \<not> py_isspace (last w)"
  by (cases w) (auto simp: is_word_def list_all_iff)

lemma strip_join_words:
  assumes "list_all is_word ws" "ws \<noteq> []"
  shows "py_join '' '' ws \<noteq> [] \<and> py_strip (py_join '' '' ws) = py_join '' '' ws"
proof -
  have h: "is_word (hd ws)" "is_word (last ws)"
    using assms by (auto simp: list_all_iff)
  then have n: "hd ws \<noteq> []" "last ws \<noteq> []" by (simp_all add: is_word_def)
  have ne: "py_join '' '' ws \<noteq> []" using assms(2) n(1) by (rule join_nonempty)
  have "\<not> py_isspace (hd (py_join '' '' ws))"
    using join_hd [OF assms(2) n(1)] word_ends [OF h(1)] by simp
  moreover have "\<not> py_isspace (last (py_join '' '' ws))"
    using join_last [OF assms(2) n(2)] word_ends [OF h(2)] by simp
  ultimately show ?thesis using ne strip_id by blast
qed

lemma rstrip_all_space: "list_all py_isspace (py_rstrip x) \<Longrightarrow> py_rstrip x = []"
proof (cases "dropWhile py_isspace (rev x)")
  case Nil
  then show ?thesis by (simp only: py_rstrip_def rev.simps)
next
  case (Cons c cs)
  assume a: "list_all py_isspace (py_rstrip x)"
  have "\<not> py_isspace c" using dropWhile_Cons_not [OF Cons] .
  moreover have "c \<in> set (py_rstrip x)" by (simp add: py_rstrip_def Cons)
  ultimately show ?thesis using a by (auto simp: list_all_iff)
qed

lemma split_strip_Nil: "py_split (py_strip s) = [] \<longleftrightarrow> py_strip s = []"
proof
  assume "py_split (py_strip s) = []"
  then have "dropWhile py_isspace (py_strip s) = []"
    by (cases "dropWhile py_isspace (py_strip s)") (auto simp: py_split_Cons)
  then have "list_all py_isspace (py_strip s)" by (simp add: list_all_iff)
  then show "py_strip s = []" unfolding py_strip_def by (rule rstrip_all_space)
next
  assume "py_strip s = []"
  then show "py_split (py_strip s) = []" by (simp add: py_split_Nil)
qed

lemma capitalize_Text:
  "capitalize_customer_name (Text s) =
     Inr (if s = [] then ''Guest''
          else if py_lower (py_strip s) = ''walk in'' then ''Walk In''
          else py_join '' '' (map py_capitalize (py_split (py_strip s))))"
  by (simp add: capitalize_customer_name_def pd_isna_def py_str_def Let_def
      capitalize_words_eq split_words)

lemma walk_in_words:
  assumes "list_all is_word ws" "ws \<noteq> []" "list_all (\<lambda>w. py_capitalize w = w) ws"
    and "py_lower (py_join '' '' ws) = ''walk in''"
  shows "py_join '' '' ws = ''Walk In''"
proof -
  have "map py_lower ws = py_split (py_lower (py_join '' '' ws))"
    using split_join_words [OF assms(1)] by (simp add: split_lower)
  also have "\<dots> = [''walk'', ''in'']"
    unfolding assms(4) by code_simp
  finally have l: "map py_lower ws = [''walk'', ''in'']" .
  have "ws = map py_capitalize ws"
    using assms(3) by (auto simp: list_all_iff intro: map_idI [symmetric])
  also have "\<dots> = map py_capitalize (map py_lower ws)"
    by (simp add: cap_lower)
  also have "\<dots> = [''Walk'', ''In'']"
    unfolding l by code_simp
  finally show ?thesis by simp
qed

lemma capitalize_twice:
  "twice capitalize_customer_name s =
     (if s \<noteq> [] \<and> py_strip s = [] then Inr ''Guest'' else capitalize_customer_name (Text s))"
proof -
  have guest: "capitalize_customer_name (Text ''Guest'') = Inr ''Guest''"
    by code_simp
  have walk: "capitalize_customer_name (Text ''Walk In'') = Inr ''Walk In''"
    by code_simp
  have empty: "capitalize_customer_name (Text []) = Inr ''Guest''"
    by (simp add: capitalize_Text)
  consider "s = []" | "s \<noteq> []" "py_strip s = []"
    | "s \<noteq> []" "py_strip s \<noteq> []" "py_lower (py_strip s) = ''walk in''"
    | "s \<noteq> []" "py_strip s \<noteq> []" "py_lower (py_strip s) \<noteq> ''walk in''"
    by blast
  then show ?thesis
  proof cases
    case 1
    then show ?thesis using guest by (simp add: twice_def capitalize_Text)
  next
    case 2
    then show ?thesis using empty by (simp add: twice_def capitalize_Text py_lower_def py_split_Nil)
  next
    case 3
    then show ?thesis using walk by (simp add: twice_def capitalize_Text)
  next
    case 4
    let ?ws = "map py_capitalize (py_split (py_strip s))"
    let ?out = "py_join '' '' ?ws"
    have w: "list_all is_word ?ws"
      using split_words [of "py_strip s"] by (auto simp: list_all_iff cap_word)
    have ne: "?ws \<noteq> []" using 4(2) by (simp add: split_strip_Nil)
    have fx: "list_all (\<lambda>w. py_capitalize w = w) ?ws"
      by (simp add: list_all_iff cap_cap)
    have st: "?out \<noteq> []" "py_strip ?out = ?out"
      using strip_join_words [OF w ne] by simp_all
    have sp: "py_split ?out = ?ws" using w by (rule split_join_words)
    have mp: "map py_capitalize ?ws = ?ws" by (simp add: cap_cap)
    have "capitalize_customer_name (Text ?out) = Inr ?out"
    proof (cases "py_lower ?out = ''walk in''")
      case True
      then have "?out = ''Walk In''" using walk_in_words [OF w ne fx] by simp
      then show ?thesis using walk by simp
    next
      case False
      have "capitalize_customer_name (Text ?out) = Inr (py_join '' '' (map py_capitalize (py_split ?out)))"
        using st(1) False unfolding capitalize_Text [of ?out] st(2) by simp
      then show ?thesis by (simp only: sp mp)
    qed
    then show ?thesis using 4 by (simp add: twice_def capitalize_Text)
  qed
qed


text \<open>
  C4 at the name of three blanks: the test for the empty name (line 142) comes before the
  trimming (line 146), so the name is not taken for empty, and the result is the empty
  text, not \<^verbatim>\<open>Guest\<close>. The empty name and the missing name give \<^verbatim>\<open>Guest\<close>. For
  every text: the empty one gives \<^verbatim>\<open>Guest\<close>, one that trims to \<^verbatim>\<open>walk in\<close>, case
  ignored, gives \<^verbatim>\<open>Walk In\<close>, and any other gives the words of the trimmed text, each
  capitalized whether a particle or not, joined by single blanks.
\<close>

theorem capitalize_customer_name_blank:
  "capitalize_customer_name (Text ''   '') = Inr [] \<and>
   capitalize_customer_name (Text []) = Inr ''Guest'' \<and>
   capitalize_customer_name Missing = Inr ''Guest'' \<and>
   capitalize_customer_name (Text s) =
     Inr (if s = [] then ''Guest''
          else if py_lower (py_strip s) = ''walk in'' then ''Walk In''
          else py_join '' '' (map py_capitalize (py_split (py_strip s))))"
proof -
  have "capitalize_customer_name (Text ''   '') = Inr []"
    by code_simp
  moreover have "capitalize_customer_name Missing = Inr ''Guest''"
    by (simp add: capitalize_customer_name_def pd_isna_def)
  ultimately show ?thesis
    using capitalize_Text [of s] capitalize_Text [of "[]"] by simp
qed

text \<open>
  C10 at the name of three blanks: the normalizer gives the empty text, and applied to
  that it gives \<^verbatim>\<open>Guest\<close>. Applying the name normalizer twice differs from applying it
  once exactly on the non-empty names that trim to nothing; the table normalizer is
  idempotent on every text.
\<close>

theorem capitalize_twice_blank:
  "capitalize_customer_name (Text ''   '') = Inr [] \<and>
   twice capitalize_customer_name ''   '' = Inr ''Guest'' \<and>
   twice capitalize_customer_name ''   '' \<noteq> capitalize_customer_name (Text ''   '') \<and>
   twice capitalize_customer_name s =
     (if s \<noteq> [] \<and> py_strip s = [] then Inr ''Guest'' else capitalize_customer_name (Text s)) \<and>
   twice extract_table_numbers s = extract_table_numbers (Text s)"
proof -
  have b: "capitalize_customer_name (Text ''   '') = Inr []"
    by code_simp
  have "capitalize_customer_name (Text []) = Inr ''Guest''"
    by (simp add: capitalize_customer_name_def)
  with b have "twice capitalize_customer_name ''   '' = Inr ''Guest''"
    by (simp add: twice_def)
  with b show ?thesis
    using capitalize_twice [of s] extract_twice [of s] by simp
qed

section \<open>Pagination\<close>

lemma normalized_texts:
  "capitalize_customer_name v = Inr (text_of (capitalize_customer_name v))"
  "calculate_end_time v = Inr (text_of (calculate_end_time v))"
  "extract_table_numbers v = Inr (text_of (extract_table_numbers v))"
proof -
  obtain a where a: "capitalize_customer_name v = Inr a"
    using capitalize_customer_name_returns [of v] by (elim exE)
  obtain b where b: "calculate_end_time v = Inr b"
    using calculate_end_time_returns [of v] by (elim exE)
  obtain c where c: "extract_table_numbers v = Inr c"
    using extract_table_numbers_returns [of v] by (elim exE)
  show "capitalize_customer_name v = Inr (text_of (capitalize_customer_name v))"
    by (simp add: a text_of_def)
  show "calculate_end_time v = Inr (text_of (calculate_end_time v))"
    by (simp add: b text_of_def)
  show "extract_table_numbers v = Inr (text_of (extract_table_numbers v))"
    by (simp add: c text_of_def)
qed

lemma create_single_card_accepted:
  "accepts_card lib specs r \<Longrightarrow> create_single_card lib r specs = Inr (card_of specs r)"
  unfolding create_single_card_def
  by (subst normalized_texts(1) [of "r ''Customer''"], subst normalized_texts(2) [of "r ''Time''"],
      subst normalized_texts(3) [of "r ''Table(s)''"])
     (simp add: accepts_card_def card_paragraphs_def card_of_def raising_def and_then_def Let_def)

lemma create_single_card_refused:
  "\<not> accepts_card lib specs r \<Longrightarrow> \<exists>e. create_single_card lib r specs = Inl e"
  unfolding create_single_card_def
  by (subst normalized_texts(1) [of "r ''Customer''"], subst normalized_texts(2) [of "r ''Time''"],
      subst normalized_texts(3) [of "r ''Table(s)''"], cases "border specs")
     (auto simp: accepts_card_def card_paragraphs_def card_of_def raising_def and_then_def Let_def
        split: option.splits)

lemma make_cards_accepted:
  "list_all (accepts_card lib specs) rs \<Longrightarrow>
   make_cards lib rs specs = Inr (map (\<lambda>r. Card (card_of specs r)) rs)"
  by (induction rs) (simp_all add: create_single_card_accepted)

lemma make_cards_refused:
  "\<not> list_all (accepts_card lib specs) rs \<Longrightarrow> \<exists>e. make_cards lib rs specs = Inl e"
proof (induction rs)
  case Nil
  then show ?case by simp
next
  case (Cons r rs)
  show ?case
  proof (cases "accepts_card lib specs r")
    case False
    obtain e where "create_single_card lib r specs = Inl e"
      using create_single_card_refused [OF False] by (elim exE)
    then show ?thesis by simp
  next
    case True
    then have "\<not> list_all (accepts_card lib specs) rs" using Cons.prems by simp
    from Cons.IH [OF this] obtain e where "make_cards lib rs specs = Inl e"
      by (elim exE)
    then show ?thesis using True by (simp add: create_single_card_accepted)
  qed
qed

lemma short_list_cases:
  assumes "length cs \<le> 4"
  obtains "cs = []" | a where "cs = [a]" | a b where "cs = [a, b]"
    | a b c where "cs = [a, b, c]" | a b c d where "cs = [a, b, c, d]"
proof (cases cs)
  case Nil
  then show ?thesis using that(1) by simp
next
  case c1: (Cons a as)
  show ?thesis
  proof (cases as)
    case Nil
    then show ?thesis using that(2) c1 by simp
  next
    case c2: (Cons b bs)
    show ?thesis
    proof (cases bs)
      case Nil
      then show ?thesis using that(3) c1 c2 by simp
    next
      case c3: (Cons c ds)
      show ?thesis
      proof (cases ds)
        case Nil
        then show ?thesis using that(4) c1 c2 c3 by simp
      next
        case c4: (Cons d es)
        then have "es = []" using assms c1 c2 c3 by simp
        then show ?thesis using that(5) c1 c2 c3 c4 by simp
      qed
    qed
  qed
qed

lemma page_data_accepted:
  assumes "list_all (accepts_card lib specs) pb" "length pb \<le> 4"
  shows "page_data lib pb specs = Inr (grid_of (map (card_of specs) pb))"
proof -
  let ?cs = "map (card_of specs) pb"
  have len: "length ?cs \<le> 4" using assms(2) by simp
  have a1: "list_all (accepts_card lib specs) (take 2 pb)"
    using assms(1) by (auto simp: list_all_iff dest: in_set_takeD)
  have a2: "list_all (accepts_card lib specs) (drop 2 pb)"
    using assms(1) by (auto simp: list_all_iff dest: in_set_dropD)
  have r1: "make_cards lib (take (min 2 (length pb)) pb) specs = Inr (map Card (take 2 ?cs))"
  proof -
    have "take (min 2 (length pb)) pb = take 2 pb" by (simp add: min_def)
    then show ?thesis using make_cards_accepted [OF a1] by (simp add: take_map comp_def)
  qed
  have r2: "make_cards lib (drop 2 (take (min 4 (length pb)) pb)) specs
            = Inr (map Card (drop 2 ?cs))"
  proof -
    have "take (min 4 (length pb)) pb = pb" using assms(2) by simp
    then show ?thesis using make_cards_accepted [OF a2] by (simp add: drop_map comp_def)
  qed
  have f1: "fill_row (map Card (take 2 ?cs)) = [cell_at ?cs 0, cell_at ?cs 1]"
  proof (cases ?cs)
    case Nil
    then show ?thesis by (simp add: fill_row_def cell_at_def numeral_2_eq_2)
  next
    case (Cons a as)
    then show ?thesis
      by (cases as) (simp_all add: fill_row_def cell_at_def numeral_2_eq_2)
  qed
  have f2: "fill_row (if length ?cs > 2 then map Card (drop 2 ?cs) else [])
            = [cell_at ?cs 2, cell_at ?cs 3]"
  proof -
    from len show ?thesis
      by (rule short_list_cases)
         (simp_all add: fill_row_def cell_at_def numeral_2_eq_2 numeral_3_eq_3)
  qed
  show ?thesis
  proof (cases "length pb > 2")
    case True
    then show ?thesis using r1 r2 f1 f2 by (simp add: page_data_def grid_of_def)
  next
    case False
    then show ?thesis using r1 f1 f2 by (simp add: page_data_def grid_of_def)
  qed
qed

lemma page_data_refused:
  assumes "\<not> list_all (accepts_card lib specs) pb" "length pb \<le> 4"
  shows "\<exists>e. page_data lib pb specs = Inl e"
proof (cases "list_all (accepts_card lib specs) (take 2 pb)")
  case False
  have "take (min 2 (length pb)) pb = take 2 pb" by (simp add: min_def)
  then obtain e where "make_cards lib (take (min 2 (length pb)) pb) specs = Inl e"
    using make_cards_refused [OF False] by auto
  then show ?thesis by (simp add: page_data_def)
next
  case True
  have "pb = take 2 pb @ drop 2 pb" by simp
  then have "list_all (accepts_card lib specs) pb
     = (list_all (accepts_card lib specs) (take 2 pb) \<and> list_all (accepts_card lib specs) (drop 2 pb))"
    by (metis list_all_append)
  then have d: "\<not> list_all (accepts_card lib specs) (drop 2 pb)"
    using assms(1) True by simp
  then have l: "length pb > 2" by (cases "length pb > 2") simp_all
  have t: "take (min 4 (length pb)) pb = pb" using assms(2) by simp
  have t2: "take (min 2 (length pb)) pb = take 2 pb" by (simp add: min_def)
  obtain e where e: "make_cards lib (drop 2 pb) specs = Inl e"
    using make_cards_refused [OF d] by (elim exE)
  show ?thesis
    using l e make_cards_accepted [OF True] by (simp add: page_data_def t t2)
qed

lemma separate_Cons: "separate sep (x # ys) = x # (if ys = [] then [] else sep # separate sep ys)"
  by (cases ys) simp_all

lemma chunks_Nil: "chunks xs = [] \<longleftrightarrow> xs = []"
  by (subst chunks.simps) simp

lemma chunks_empty: "chunks [] = []"
  by (simp add: chunks_Nil)

lemma chunks_Cons: "xs \<noteq> [] \<Longrightarrow> chunks xs = take 4 xs # chunks (drop 4 xs)"
  by (subst chunks.simps) simp

lemma spec_story_step:
  assumes "cs \<noteq> []"
  shows "spec_story cs =
        Page_table (grid_of (take 4 cs))
        # (if 4 < length cs then [PageBreak] else []) @ spec_story (drop 4 cs)"
proof (cases "4 < length cs")
  case True
  then have "chunks (drop 4 cs) \<noteq> []" by (simp add: chunks_Nil)
  then show ?thesis using True assms by (simp add: spec_story_def chunks_Cons separate_Cons)
next
  case False
  then have "chunks (drop 4 cs) = []" by (simp add: chunks_Nil)
  then show ?thesis using False assms by (simp add: spec_story_def chunks_Cons separate_Cons)
qed

lemma story_from_accepted:
  assumes "list_all (accepts_card lib specs) (drop i df)"
    "list_all (\<lambda>chunk. page_table lib specs (grid_of chunk) = None)
       (chunks (map (card_of specs) (drop i df)))"
  shows "story_from lib i df specs = Inr (spec_story (map (card_of specs) (drop i df)))"
  using assms
proof (induction lib i df specs rule: story_from.induct)
  case (1 lib page_start df specs)
  let ?cs = "map (card_of specs) (drop page_start df)"
  show ?case
  proof (cases "page_start < length df")
    case False
    then have "spec_story ?cs = []"
      by (simp add: spec_story_def chunks_empty)
    then show ?thesis using False by (subst story_from.simps) simp
  next
    case True
    then have ne: "?cs \<noteq> []" by simp
    have ch: "chunks ?cs = take 4 ?cs # chunks (drop 4 ?cs)"
      using ne by (rule chunks_Cons)
    have dd: "drop 4 (drop page_start df) = drop (page_start + 4) df"
      by (simp add: add.commute)
    have a1: "list_all (accepts_card lib specs) (take 4 (drop page_start df))"
      using "1.prems"(1) by (auto simp: list_all_iff dest: in_set_takeD)
    have "list_all (accepts_card lib specs) (drop 4 (drop page_start df))"
      using "1.prems"(1) by (auto simp: list_all_iff dest: in_set_dropD simp del: drop_drop)
    then have a2: "list_all (accepts_card lib specs) (drop (page_start + 4) df)"
      by (simp only: dd)
    have pd: "page_data lib (take 4 (drop page_start df)) specs
              = Inr (grid_of (take 4 ?cs))"
      using page_data_accepted [OF a1] by (simp add: take_map)
    have pt: "page_table lib specs (grid_of (take 4 ?cs)) = None"
      using "1.prems"(2) unfolding ch by simp
    have a3: "list_all (\<lambda>chunk. page_table lib specs (grid_of chunk) = None)
       (chunks (map (card_of specs) (drop (page_start + 4) df)))"
      using "1.prems"(2) unfolding ch by (simp add: drop_map add.commute)
    have ih: "story_from lib (page_start + 4) df specs
              = Inr (spec_story (map (card_of specs) (drop (page_start + 4) df)))"
      using "1.IH" [OF True pd pt a2 a3] .
    have st: "spec_story ?cs =
        Page_table (grid_of (take 4 ?cs))
        # (if page_start + 4 < length df then [PageBreak] else [])
        @ spec_story (map (card_of specs) (drop (page_start + 4) df))"
      using spec_story_step [OF ne] True by (simp add: drop_map dd less_diff_conv add.commute)
    show ?thesis
      using True pd pt ih st by (subst story_from.simps) simp
  qed
qed

lemma story_from_refused:
  assumes "\<not> (list_all (accepts_card lib specs) (drop i df) \<and>
    list_all (\<lambda>chunk. page_table lib specs (grid_of chunk) = None)
       (chunks (map (card_of specs) (drop i df))))"
  shows "\<exists>e. story_from lib i df specs = Inl e"
  using assms
proof (induction lib i df specs rule: story_from.induct)
  case (1 lib page_start df specs)
  let ?cs = "map (card_of specs) (drop page_start df)"
  have True: "page_start < length df"
  proof (rule ccontr)
    assume "\<not> page_start < length df"
    then have "drop page_start df = []" by simp
    then show False using "1.prems" by (simp add: chunks_empty)
  qed
  then have ne: "?cs \<noteq> []" by simp
  have ch: "chunks ?cs = take 4 ?cs # chunks (drop 4 ?cs)"
    using ne by (rule chunks_Cons)
  have dd: "drop 4 (drop page_start df) = drop (page_start + 4) df"
    by (simp add: add.commute)
  have sp: "list_all (accepts_card lib specs) (drop page_start df)
     = (list_all (accepts_card lib specs) (take 4 (drop page_start df)) \<and>
        list_all (accepts_card lib specs) (drop (page_start + 4) df))"
  proof -
    have e: "take 4 (drop page_start df) @ drop 4 (drop page_start df) = drop page_start df"
      by (rule append_take_drop_id)
    have "list_all (accepts_card lib specs) (drop page_start df)
     = (list_all (accepts_card lib specs) (take 4 (drop page_start df)) \<and>
        list_all (accepts_card lib specs) (drop 4 (drop page_start df)))"
      using list_all_append [of "accepts_card lib specs" "take 4 (drop page_start df)"
          "drop 4 (drop page_start df)"]
      unfolding e .
    then show ?thesis by (simp only: dd)
  qed
  show ?case
  proof (cases "list_all (accepts_card lib specs) (take 4 (drop page_start df))")
    case False
    then obtain e where "page_data lib (take 4 (drop page_start df)) specs = Inl e"
      using page_data_refused [of lib specs "take 4 (drop page_start df)"] by auto
    then show ?thesis using True by (subst story_from.simps) simp
  next
    case a1: True
    have pd: "page_data lib (take 4 (drop page_start df)) specs
              = Inr (grid_of (take 4 ?cs))"
      using page_data_accepted [OF a1] by (simp add: take_map)
    show ?thesis
    proof (cases "page_table lib specs (grid_of (take 4 ?cs))")
      case (Some e)
      then show ?thesis using True pd by (subst story_from.simps) simp
    next
      case None
      have "\<not> (list_all (accepts_card lib specs) (drop (page_start + 4) df) \<and>
        list_all (\<lambda>chunk. page_table lib specs (grid_of chunk) = None)
          (chunks (map (card_of specs) (drop (page_start + 4) df))))"
        using "1.prems" a1 None unfolding sp ch by (simp add: drop_map add.commute)
      from "1.IH" [OF True pd None this]
      obtain e where "story_from lib (page_start + 4) df specs = Inl e"
        by (elim exE)
      then show ?thesis using True pd None by (subst story_from.simps) simp
    qed
  qed
qed

lemma generate_placecards_accepted:
  "accepts lib specs df \<Longrightarrow>
   generate_placecards lib df specs = Inr (spec_story (cards_of specs df))"
  using story_from_accepted [of lib specs 0 "rows df"]
  by (simp add: accepts_def cards_of_def generate_placecards_def raising_def and_then_def)

lemma generate_placecards_refused:
  assumes "\<not> accepts lib specs df"
  shows "\<exists>e. generate_placecards lib df specs = Inl e"
proof (cases "doc_setup lib specs")
  case (Some e)
  then show ?thesis by (simp add: generate_placecards_def raising_def)
next
  case None
  show ?thesis
  proof (cases "list_all (accepts_card lib specs) (rows df) \<and>
    list_all (\<lambda>chunk. page_table lib specs (grid_of chunk) = None)
       (chunks (map (card_of specs) (rows df)))")
    case False
    then obtain e where "story_from lib 0 (rows df) specs = Inl e"
      using story_from_refused [of lib specs 0 "rows df"] by auto
    then show ?thesis using None by (simp add: generate_placecards_def raising_def and_then_def)
  next
    case True
    then have s: "story_from lib 0 (rows df) specs = Inr (spec_story (cards_of specs df))"
      using story_from_accepted [of lib specs 0 "rows df"] by (simp add: cards_of_def)
    obtain e where "doc_build lib specs (spec_story (cards_of specs df)) = Some e"
      using assms None True by (cases "doc_build lib specs (spec_story (cards_of specs df))")
        (simp_all add: accepts_def cards_of_def)
    then show ?thesis
      using None s by (simp add: generate_placecards_def raising_def and_then_def)
  qed
qed

lemma accepting_accepts: "accepts accepting specs df"
  by (simp add: accepts_def accepts_card_def accepting_def list_all_iff split: prod.splits)

lemma chunks_step: "xs \<noteq> [] \<Longrightarrow> chunks xs = take 4 xs # chunks (drop 4 xs)"
  by (subst chunks.simps) simp

lemma length_chunks: "length (chunks xs) = (length xs + 3) div 4"
proof (induction xs rule: chunks.induct)
  case (1 xs)
  show ?case
  proof (cases "xs = []")
    case True
    then show ?thesis by (simp add: chunks_empty)
  next
    case False
    then have "length (chunks xs) = Suc ((length xs - 4 + 3) div 4)"
      using "1.IH" by (simp add: chunks_step)
    moreover have "0 < length xs" using False by simp
    ultimately show ?thesis by arith
  qed
qed

lemma chunks_nth: "k < length (chunks xs) \<Longrightarrow> chunks xs ! k = take 4 (drop (4 * k) xs)"
proof (induction xs arbitrary: k rule: chunks.induct)
  case (1 xs)
  have ne: "xs \<noteq> []" using "1.prems" by (auto simp: chunks_empty)
  show ?case
  proof (cases k)
    case 0
    then show ?thesis using ne by (simp add: chunks_step)
  next
    case (Suc j)
    then have "j < length (chunks (drop 4 xs))" using "1.prems" ne by (simp add: chunks_step)
    then have "chunks (drop 4 xs) ! j = take 4 (drop (4 * j) (drop 4 xs))"
      using "1.IH" ne by simp
    then show ?thesis using Suc ne by (simp add: chunks_step add.commute)
  qed
qed

lemma concat_chunks: "concat (chunks xs) = xs"
proof (induction xs rule: chunks.induct)
  case (1 xs)
  show ?case
  proof (cases "xs = []")
    case True
    then show ?thesis by (simp add: chunks_empty)
  next
    case False
    then show ?thesis using "1.IH" by (simp add: chunks_step)
  qed
qed

lemma separate_Nil: "separate sep ps = [] \<longleftrightarrow> ps = []"
  by (cases ps) (simp_all add: separate_Cons)

lemma page_grids_separate:
  "page_grids (separate PageBreak (map Page_table gs)) = gs"
  by (induction gs) (simp_all add: separate_Cons)

lemma page_grids_spec_story: "page_grids (spec_story cards) = map grid_of (chunks cards)"
  using page_grids_separate [of "map grid_of (chunks cards)"]
  by (simp add: spec_story_def comp_def)

lemma last_separate:
  "ps \<noteq> [] \<Longrightarrow> last (separate sep ps) = last ps"
  by (induction ps) (simp_all add: separate_Cons separate_Nil)

lemma count_separate:
  "PageBreak \<notin> set ps \<Longrightarrow>
   length (filter (\<lambda>f. f = PageBreak) (separate PageBreak ps)) = length ps - 1"
  by (induction ps) (auto simp: separate_Cons)

lemma cards_in_grid_of: "length ch \<le> 4 \<Longrightarrow> cards_in (concat (grid_of ch)) = ch"
  by (erule short_list_cases)
     (simp_all add: grid_of_def cell_at_def numeral_2_eq_2 numeral_3_eq_3)


lemma full_chunk:
  assumes "Suc k < length (chunks xs)"
  shows "length (chunks xs ! k) = 4"
proof -
  have "Suc k < (length xs + 3) div 4" using assms by (simp add: length_chunks)
  then have "4 * k + 4 \<le> length xs" by arith
  moreover have "chunks xs ! k = take 4 (drop (4 * k) xs)"
    using assms by (simp add: chunks_nth)
  ultimately show ?thesis by simp
qed

lemma chunk_short: "k < length (chunks xs) \<Longrightarrow> length (chunks xs ! k) \<le> 4"
  by (simp add: chunks_nth)

text \<open>
  C2, as the specification states it, fails for a record whose text the library does not
  take: the name \<^verbatim>\<open><i>ann\<close> is put unescaped into the paragraph
  \<^verbatim>\<open><b><i>ann</b>\<close>, which is not well-formed markup; the paragraph raises
  \<^verbatim>\<open>ValueError\<close>, and for this sequence of one record no page is produced.
\<close>

theorem generate_placecards_markup_counterexample:
  "capitalize_customer_name (Text ''<i>ann'') = Inr ''<i>ann'' \<and>
   generate_placecards (rejecting [''<b><i>ann</b>''])
     \<lparr>columns = required_columns,
      rows = [\<lambda>col. if col = ''Customer'' then Text ''<i>ann'' else Text ''7'']\<rparr>
     get_default_specs = Inl ValueError \<and>
   (\<nexists>story. generate_placecards (rejecting [''<b><i>ann</b>''])
     \<lparr>columns = required_columns,
      rows = [\<lambda>col. if col = ''Customer'' then Text ''<i>ann'' else Text ''7'']\<rparr>
     get_default_specs = Inr story)"
proof -
  let ?r = "\<lambda>col. if col = ''Customer'' then Text ''<i>ann'' else Text ''7''"
  have n: "capitalize_customer_name (Text ''<i>ann'') = Inr ''<i>ann''"
    by code_simp
  have c: "create_single_card (rejecting [''<b><i>ann</b>'']) ?r get_default_specs = Inl ValueError"
    by (simp add: create_single_card_def rejecting_def accepting_def raising_def and_then_def n)
  have p: "page_data (rejecting [''<b><i>ann</b>'']) [?r] get_default_specs = Inl ValueError"
    using c by (simp add: page_data_def)
  have s: "story_from (rejecting [''<b><i>ann</b>'']) 0 [?r] get_default_specs = Inl ValueError"
    using p by (subst story_from.simps) simp
  have g: "generate_placecards (rejecting [''<b><i>ann</b>''])
     \<lparr>columns = required_columns, rows = [?r]\<rparr> get_default_specs = Inl ValueError"
    using s by (simp add: generate_placecards_def raising_def and_then_def rejecting_def accepting_def)
  show ?thesis
    using n g by simp
qed

text \<open>
  C2, amended: for the \<open>N\<close> records of a frame that the library accepts, the story is
  the specification's: the cards of the records in their order, cut into consecutive
  chunks of at most four, each chunk a grid of two rows of two filled from the top left
  with blanks past its end, and a page separator between two pages. There are
  \<open>(N + 3) div 4\<close> pages; page \<open>k\<close> holds the cards \<open>4k, \<dots>\<close> in order, exactly four
  unless it is the last; the story does not end in a separator, and holds one separator
  less than pages. When the library does not accept the frame, the generation raises and
  there is no story. A library that accepts every call accepts every frame.
\<close>

theorem generate_placecards_pages:
  "(accepts lib specs df \<longrightarrow>
      generate_placecards lib df specs = Inr (spec_story (cards_of specs df))) \<and>
   (\<not> accepts lib specs df \<longrightarrow> (\<exists>e. generate_placecards lib df specs = Inl e)) \<and>
   accepts accepting specs df \<and>
   length (cards_of specs df) = length (rows df) \<and>
   length (page_grids (spec_story (cards_of specs df))) = (length (rows df) + 3) div 4 \<and>
   page_grids (spec_story cards) = map grid_of (chunks cards) \<and>
   length (page_grids (spec_story cards)) = (length cards + 3) div 4 \<and>
   concat (chunks cards) = cards \<and>
   (\<forall>k < length (chunks cards).
      chunks cards ! k = take 4 (drop (4 * k) cards) \<and>
      cards_in (concat (page_grids (spec_story cards) ! k)) = chunks cards ! k \<and>
      (Suc k < length (chunks cards) \<longrightarrow> length (chunks cards ! k) = 4)) \<and>
   (spec_story cards \<noteq> [] \<longrightarrow> last (spec_story cards) \<noteq> PageBreak) \<and>
   length (filter (\<lambda>f. f = PageBreak) (spec_story cards)) = length (chunks cards) - 1"
proof -
  have a: "accepts lib specs df \<longrightarrow>
      generate_placecards lib df specs = Inr (spec_story (cards_of specs df))"
    by (simp add: generate_placecards_accepted)
  have r: "\<not> accepts lib specs df \<longrightarrow> (\<exists>e. generate_placecards lib df specs = Inl e)"
    using generate_placecards_refused [of lib specs df] by simp
  have len: "length (cards_of specs df) = length (rows df)"
    by (simp add: cards_of_def)
  have n: "length (page_grids (spec_story cards)) = (length cards + 3) div 4" for cards :: "card list"
    by (simp add: page_grids_spec_story length_chunks)
  have pages: "\<forall>k < length (chunks cards).
        chunks cards ! k = take 4 (drop (4 * k) cards) \<and>
        cards_in (concat (page_grids (spec_story cards) ! k)) = chunks cards ! k \<and>
        (Suc k < length (chunks cards) \<longrightarrow> length (chunks cards ! k) = 4)"
  proof (intro allI impI conjI)
    fix k assume k: "k < length (chunks cards)"
    show "chunks cards ! k = take 4 (drop (4 * k) cards)" using k by (rule chunks_nth)
    show "cards_in (concat (page_grids (spec_story cards) ! k)) = chunks cards ! k"
      using k cards_in_grid_of [OF chunk_short [OF k]] by (simp add: page_grids_spec_story)
  next
    fix k assume "Suc k < length (chunks cards)"
    then show "length (chunks cards ! k) = 4" by (rule full_chunk)
  qed
  have l: "spec_story cards \<noteq> [] \<longrightarrow> last (spec_story cards) \<noteq> PageBreak"
  proof
    assume "spec_story cards \<noteq> []"
    then have ne: "map (\<lambda>chunk. Page_table (grid_of chunk)) (chunks cards) \<noteq> []"
      by (auto simp: spec_story_def)
    have "last (spec_story cards) = last (map (\<lambda>chunk. Page_table (grid_of chunk)) (chunks cards))"
      unfolding spec_story_def using ne by (rule last_separate)
    also have "\<dots> = Page_table (grid_of (last (chunks cards)))"
      using ne by (simp add: last_map)
    finally show "last (spec_story cards) \<noteq> PageBreak" by simp
  qed
  have b: "length (filter (\<lambda>f. f = PageBreak) (spec_story cards)) = length (chunks cards) - 1"
    using count_separate [of "map (\<lambda>chunk. Page_table (grid_of chunk)) (chunks cards)"]
    by (auto simp: spec_story_def)
  have n2: "length (page_grids (spec_story (cards_of specs df))) = (length (rows df) + 3) div 4"
    using n [of "cards_of specs df"] len by simp
  show ?thesis
    by (intro conjI a r accepting_accepts len n2 page_grids_spec_story n concat_chunks pages l b)
qed

theorem generate_placecards_pages_witness:
  "accepts accepting get_default_specs
     \<lparr>columns = required_columns, rows = replicate 5 (\<lambda>col. Text ''7pm'')\<rparr> \<and>
   generate_placecards accepting
     \<lparr>columns = required_columns, rows = replicate 5 (\<lambda>col. Text ''7pm'')\<rparr> get_default_specs
     = Inr (spec_story (replicate 5 (card_of get_default_specs (\<lambda>col. Text ''7pm'')))) \<and>
   length (page_grids (spec_story (replicate 5 (card_of get_default_specs (\<lambda>col. Text ''7pm''))))) = 2 \<and>
   length (chunks (replicate 5 (card_of get_default_specs (\<lambda>col. Text ''7pm''))) ! 0) = 4 \<and>
   \<not> accepts (rejecting [''<b><i>ann</b>'']) get_default_specs
     \<lparr>columns = required_columns, rows = [\<lambda>col. Text ''<i>ann'']\<rparr> \<and>
   (\<exists>e. generate_placecards (rejecting [''<b><i>ann</b>''])
     \<lparr>columns = required_columns, rows = [\<lambda>col. Text ''<i>ann'']\<rparr> get_default_specs = Inl e)"
proof -
  let ?df = "\<lparr>columns = required_columns, rows = replicate 5 (\<lambda>col. Text ''7pm'')\<rparr>"
  let ?cards = "replicate 5 (card_of get_default_specs (\<lambda>col. Text ''7pm''))"
  let ?bad = "\<lparr>columns = required_columns, rows = [\<lambda>col. Text ''<i>ann'']\<rparr>"
  have c: "cards_of get_default_specs ?df = ?cards"
    by (simp add: cards_of_def)
  note t = generate_placecards_pages [of accepting get_default_specs ?df ?cards]
  from t have a: "accepts accepting get_default_specs ?df"
    by (elim conjE)
  from t have "accepts accepting get_default_specs ?df \<longrightarrow>
      generate_placecards accepting ?df get_default_specs
        = Inr (spec_story (cards_of get_default_specs ?df))"
    by (elim conjE)
  with a c have g: "generate_placecards accepting ?df get_default_specs = Inr (spec_story ?cards)"
    by simp
  from t have "length (page_grids (spec_story ?cards)) = (length ?cards + 3) div 4"
    by (elim conjE)
  then have n: "length (page_grids (spec_story ?cards)) = 2"
    by simp
  from t have m: "page_grids (spec_story ?cards) = map grid_of (chunks ?cards)"
    by (elim conjE)
  have z: "length (chunks ?cards) = 2"
    using n unfolding m by simp
  from t have "\<forall>k < length (chunks ?cards).
      chunks ?cards ! k = take 4 (drop (4 * k) ?cards) \<and>
      cards_in (concat (page_grids (spec_story ?cards) ! k)) = chunks ?cards ! k \<and>
      (Suc k < length (chunks ?cards) \<longrightarrow> length (chunks ?cards ! k) = 4)"
    by (elim conjE)
  from this [rule_format, of 0] z have f: "length (chunks ?cards ! 0) = 4"
    by simp
  have nm: "capitalize_customer_name (Text ''<i>ann'') = Inr ''<i>ann''"
    by code_simp
  have na: "\<not> accepts (rejecting [''<b><i>ann</b>'']) get_default_specs ?bad"
    by (simp add: accepts_def accepts_card_def card_paragraphs_def rejecting_def accepting_def
        nm text_of_def)
  from generate_placecards_pages [of "rejecting [''<b><i>ann</b>'']" get_default_specs ?bad "[]"]
  have "\<not> accepts (rejecting [''<b><i>ann</b>'']) get_default_specs ?bad \<longrightarrow>
    (\<exists>e. generate_placecards (rejecting [''<b><i>ann</b>'']) ?bad get_default_specs = Inl e)"
    by (elim conjE)
  with na have e: "\<exists>e. generate_placecards (rejecting [''<b><i>ann</b>'']) ?bad get_default_specs = Inl e"
    by simp
  show ?thesis
    by (intro conjI a g n f na e)
qed

section \<open>Filtering\<close>

lemma py_contains_iff: "py_contains pat s \<longleftrightarrow> (\<exists>pre post. s = pre @ pat @ post)"
proof (induction s)
  case Nil
  show ?case by auto
next
  case (Cons c cs)
  show ?case
  proof
    assume "py_contains pat (c # cs)"
    then consider "prefix pat (c # cs)" | "py_contains pat cs" by auto
    then show "\<exists>pre post. c # cs = pre @ pat @ post"
    proof cases
      case 1
      then obtain post where "c # cs = pat @ post" by (auto simp: prefix_def)
      then have "c # cs = [] @ pat @ post" by simp
      then show ?thesis by blast
    next
      case 2
      then obtain pre post where "cs = pre @ pat @ post" using Cons by blast
      then have "c # cs = (c # pre) @ pat @ post" by simp
      then show ?thesis by blast
    qed
  next
    assume "\<exists>pre post. c # cs = pre @ pat @ post"
    then obtain pre post where e: "c # cs = pre @ pat @ post" by blast
    show "py_contains pat (c # cs)"
    proof (cases pre)
      case Nil
      then have "prefix pat (c # cs)" using e by (simp add: prefix_def)
      then show ?thesis by simp
    next
      case (Cons p ps)
      then have "cs = ps @ pat @ post" using e by simp
      then have "py_contains pat cs" using Cons.IH by blast
      then show ?thesis by simp
    qed
  qed
qed

lemma contains_lower_iff:
  assumes "py_lower kw = kw"
  shows "py_contains kw (py_lower s) \<longleftrightarrow> contains_ci kw s"
proof
  assume "py_contains kw (py_lower s)"
  then obtain pre post where h: "map lower_char s = pre @ (kw @ post)"
    by (auto simp: py_contains_iff py_lower_def)
  from iffD1 [OF map_eq_append_conv h]
  obtain a vs where a: "s = a @ vs" "kw @ post = map lower_char vs"
    by (elim exE conjE)
  from iffD1 [OF map_eq_append_conv a(2) [symmetric]]
  obtain b c where "vs = b @ c" "kw = map lower_char b"
    by (elim exE conjE)
  with a have "s = a @ b @ c" "map lower_char b = kw" by simp_all
  then show "contains_ci kw s" using assms
    by (auto simp: contains_ci_def py_lower_def)
next
  assume "contains_ci kw s"
  then obtain pre mid post where "s = pre @ mid @ post" "py_lower mid = kw"
    using assms by (auto simp: contains_ci_def)
  then have "py_lower s = py_lower pre @ kw @ py_lower post"
    by (simp add: py_lower_def)
  then show "py_contains kw (py_lower s)"
    unfolding py_contains_iff by blast
qed

lemma service_mask_iff:
  "py_lower kw = kw \<Longrightarrow> service_mask kw (r ''Service or Event'') \<longleftrightarrow> category_matches kw r"
  by (cases "r ''Service or Event''")
     (simp_all add: service_mask_def category_matches_def contains_lower_iff)

lemma lower_keywords: "py_lower ''lunch'' = ''lunch''" "py_lower ''dinner'' = ''dinner''"
  by (simp_all add: py_lower_def lower_char_def)

lemma contains_ci_nonempty: "kw \<noteq> [] \<Longrightarrow> contains_ci kw s \<Longrightarrow> s \<noteq> []"
  by (auto simp: contains_ci_def py_lower_def)

lemma masked_rows:
  "map fst (filter (\<lambda>(r, v). P v) (zip rs (map f rs))) = filter (\<lambda>r. P (f r)) rs"
  by (induction rs) simp_all

lemma filter_service_eq:
  assumes "py_lower kw = kw"
  shows "filter_service kw df =
     (if rows df \<noteq> [] \<and> list_all (\<lambda>r. pd_isna (r ''Service or Event'')) (rows df)
      then Inl AttributeError
      else Inr (df\<lparr>rows := filter (category_matches kw) (rows df)\<rparr>))"
proof -
  have "filter (\<lambda>r. service_mask kw (r ''Service or Event'')) (rows df)
        = filter (category_matches kw) (rows df)"
    using service_mask_iff [OF assms] by (simp cong: filter_cong)
  then show ?thesis
    by (simp add: filter_service_def str_accessor_def and_then_def masked_rows list_all_iff)
qed

lemma apply_filter_eq:
  "apply_filter Lunch_only df =
     (if rows df \<noteq> [] \<and> list_all (\<lambda>r. pd_isna (r ''Service or Event'')) (rows df)
      then Inl AttributeError
      else Inr (df\<lparr>rows := filter (category_matches ''lunch'') (rows df)\<rparr>))"
  "apply_filter Dinner_only df =
     (if rows df \<noteq> [] \<and> list_all (\<lambda>r. pd_isna (r ''Service or Event'')) (rows df)
      then Inl AttributeError
      else Inr (df\<lparr>rows := filter (category_matches ''dinner'') (rows df)\<rparr>))"
  "apply_filter All_bookings df = Inr df"
  using filter_service_eq [OF lower_keywords(1), of df] filter_service_eq [OF lower_keywords(2), of df]
  by (simp_all add: apply_filter_def)

lemma apply_filter_error: "apply_filter opt df = Inl e \<Longrightarrow> e = AttributeError"
  by (cases opt) (simp_all add: apply_filter_eq split: if_splits)

lemma apply_filter_subseq:
  "apply_filter opt df = Inr f \<Longrightarrow> subseq (rows f) (rows df) \<and> columns f = columns df"
  by (cases opt) (auto simp: apply_filter_eq split: if_splits)

lemma apply_filter_has_category:
  assumes "opt \<noteq> All_bookings" "apply_filter opt df = Inr f" "r \<in> set (rows f)"
  shows "r ''Service or Event'' \<noteq> Missing \<and> r ''Service or Event'' \<noteq> Text []"
proof -
  from assms have "category_matches ''lunch'' r \<or> category_matches ''dinner'' r"
    by (cases opt) (auto simp: apply_filter_eq split: if_splits)
  moreover have "''lunch'' \<noteq> []" "''dinner'' \<noteq> []"
    by simp_all
  ultimately obtain kw where kw: "kw \<noteq> []" "category_matches kw r"
    by (elim disjE)
  then show ?thesis
    by (cases "r ''Service or Event''") (auto simp: category_matches_def dest: contains_ci_nonempty)
qed


text \<open>
  C6 at a frame of one record whose category is missing, with the lunch filter: no
  record matches, and the result should be the empty sequence; but the column holds no
  text, the accessor \<^verbatim>\<open>.str\<close> of line 485 raises \<^verbatim>\<open>AttributeError\<close>, and nothing is
  returned. So it is for every frame that has records and no category text. On every
  other frame the lunch and dinner filters return exactly the records whose category
  text holds the keyword, case ignored, in the order of the input (the mask of the source
  decides this for every lower-case keyword); without a filter the frame is unchanged;
  a result is a subsequence of the input, and a kept record of a keyword filter has a
  category that is neither missing nor empty.
\<close>

theorem filter_by_category:
  "apply_filter Lunch_only \<lparr>columns = required_columns, rows = [\<lambda>col. Missing]\<rparr>
     = Inl AttributeError \<and>
   filter (category_matches ''lunch'') [\<lambda>col. Missing] = [] \<and>
   apply_filter Lunch_only df =
     (if rows df \<noteq> [] \<and> list_all (\<lambda>r. pd_isna (r ''Service or Event'')) (rows df)
      then Inl AttributeError
      else Inr (df\<lparr>rows := filter (category_matches ''lunch'') (rows df)\<rparr>)) \<and>
   apply_filter Dinner_only df =
     (if rows df \<noteq> [] \<and> list_all (\<lambda>r. pd_isna (r ''Service or Event'')) (rows df)
      then Inl AttributeError
      else Inr (df\<lparr>rows := filter (category_matches ''dinner'') (rows df)\<rparr>)) \<and>
   apply_filter All_bookings df = Inr df \<and>
   (py_lower kw = kw \<longrightarrow>
      filter_service kw df =
        (if rows df \<noteq> [] \<and> list_all (\<lambda>r. pd_isna (r ''Service or Event'')) (rows df)
         then Inl AttributeError
         else Inr (df\<lparr>rows := filter (category_matches kw) (rows df)\<rparr>))) \<and>
   (apply_filter opt df = Inr f \<longrightarrow> subseq (rows f) (rows df) \<and> columns f = columns df) \<and>
   (opt \<noteq> All_bookings \<and> apply_filter opt df = Inr f \<longrightarrow>
      (\<forall>r \<in> set (rows f).
         r ''Service or Event'' \<noteq> Missing \<and> r ''Service or Event'' \<noteq> Text []))"
proof -
  have b: "apply_filter Lunch_only \<lparr>columns = required_columns, rows = [\<lambda>col. Missing]\<rparr>
     = Inl AttributeError"
    by (simp add: apply_filter_eq pd_isna_def)
  have n: "filter (category_matches ''lunch'') [\<lambda>col. Missing] = []"
    by (simp add: category_matches_def)
  have k: "py_lower kw = kw \<longrightarrow>
      filter_service kw df =
        (if rows df \<noteq> [] \<and> list_all (\<lambda>r. pd_isna (r ''Service or Event'')) (rows df)
         then Inl AttributeError
         else Inr (df\<lparr>rows := filter (category_matches kw) (rows df)\<rparr>))"
    using filter_service_eq [of kw df] by simp
  have s: "apply_filter opt df = Inr f \<longrightarrow> subseq (rows f) (rows df) \<and> columns f = columns df"
    using apply_filter_subseq [of opt df f] by simp
  have m: "opt \<noteq> All_bookings \<and> apply_filter opt df = Inr f \<longrightarrow>
      (\<forall>r \<in> set (rows f).
         r ''Service or Event'' \<noteq> Missing \<and> r ''Service or Event'' \<noteq> Text [])"
    using apply_filter_has_category [of opt df f] by simp
  show ?thesis
    by (intro conjI b n apply_filter_eq k s m)
qed

theorem filter_by_category_witness:
  "py_lower ''lunch'' = ''lunch'' \<and>
   Lunch_only \<noteq> All_bookings \<and>
   apply_filter Lunch_only \<lparr>columns = required_columns,
       rows = [(\<lambda>col. Text ''Sunday LUNCH''), (\<lambda>col. Missing), (\<lambda>col. Text ''Dinner'')]\<rparr>
     = Inr \<lparr>columns = required_columns, rows = [(\<lambda>col. Text ''Sunday LUNCH'')]\<rparr> \<and>
   filter_service ''lunch'' \<lparr>columns = required_columns,
       rows = [(\<lambda>col. Text ''Sunday LUNCH''), (\<lambda>col. Missing), (\<lambda>col. Text ''Dinner'')]\<rparr>
     = Inr \<lparr>columns = required_columns, rows = [(\<lambda>col. Text ''Sunday LUNCH'')]\<rparr> \<and>
   subseq [(\<lambda>col. Text ''Sunday LUNCH'')]
     [(\<lambda>col. Text ''Sunday LUNCH''), (\<lambda>col. Missing), (\<lambda>col. Text ''Dinner'') :: row] \<and>
   (\<lambda>col. Text ''Sunday LUNCH'') ''Service or Event'' \<noteq> Missing"
proof -
  let ?rs = "[(\<lambda>col. Text ''Sunday LUNCH''), (\<lambda>col. Missing), (\<lambda>col. Text ''Dinner'')] :: row list"
  let ?df = "\<lparr>columns = required_columns, rows = ?rs\<rparr>"
  let ?f = "\<lparr>columns = required_columns, rows = [(\<lambda>col. Text ''Sunday LUNCH'') :: row]\<rparr>"
  have "contains_ci ''lunch'' ''Sunday LUNCH''"
    unfolding contains_ci_def
  proof (intro exI conjI)
    show "''Sunday LUNCH'' = ''Sunday '' @ ''LUNCH'' @ []" by simp
    show "py_lower ''LUNCH'' = py_lower ''lunch''" by code_simp
  qed
  then have a: "category_matches ''lunch'' (\<lambda>col. Text ''Sunday LUNCH'')"
    by (simp add: category_matches_def)
  have b: "\<not> category_matches ''lunch'' (\<lambda>col. Missing)"
    by (simp add: category_matches_def)
  have l: "py_lower ''lunch'' = ''lunch''"
    by code_simp
  have "\<not> py_contains ''lunch'' (py_lower ''Dinner'')"
    by code_simp
  then have c: "\<not> category_matches ''lunch'' (\<lambda>col. Text ''Dinner'')"
    using service_mask_iff [OF l, of "\<lambda>col. Text ''Dinner''"]
    by (simp add: service_mask_def)
  have p: "\<not> (rows ?df \<noteq> [] \<and> list_all (\<lambda>r. pd_isna (r ''Service or Event'')) (rows ?df))"
    by (simp add: pd_isna_def)
  have fr: "filter (category_matches ''lunch'') (rows ?df) = [(\<lambda>col. Text ''Sunday LUNCH'')]"
    using a b c by simp
  note t = filter_by_category [of ?df "''lunch''" Lunch_only ?f]
  from t have "apply_filter Lunch_only ?df =
     (if rows ?df \<noteq> [] \<and> list_all (\<lambda>r. pd_isna (r ''Service or Event'')) (rows ?df)
      then Inl AttributeError
      else Inr (?df\<lparr>rows := filter (category_matches ''lunch'') (rows ?df)\<rparr>))"
    by (elim conjE)
  then have r1: "apply_filter Lunch_only ?df = Inr ?f"
    unfolding fr using p by simp
  from t have "py_lower ''lunch'' = ''lunch'' \<longrightarrow>
      filter_service ''lunch'' ?df =
        (if rows ?df \<noteq> [] \<and> list_all (\<lambda>r. pd_isna (r ''Service or Event'')) (rows ?df)
         then Inl AttributeError
         else Inr (?df\<lparr>rows := filter (category_matches ''lunch'') (rows ?df)\<rparr>))"
    by (elim conjE)
  with l have "filter_service ''lunch'' ?df =
        (if rows ?df \<noteq> [] \<and> list_all (\<lambda>r. pd_isna (r ''Service or Event'')) (rows ?df)
         then Inl AttributeError
         else Inr (?df\<lparr>rows := filter (category_matches ''lunch'') (rows ?df)\<rparr>))"
    by (rule_tac mp)
  then have r2: "filter_service ''lunch'' ?df = Inr ?f"
    unfolding fr using p by simp
  from t have "apply_filter Lunch_only ?df = Inr ?f \<longrightarrow>
      subseq (rows ?f) (rows ?df) \<and> columns ?f = columns ?df"
    by (elim conjE)
  with r1 have r3: "subseq [(\<lambda>col. Text ''Sunday LUNCH'')] ?rs"
    by simp
  from t have "Lunch_only \<noteq> All_bookings \<and> apply_filter Lunch_only ?df = Inr ?f \<longrightarrow>
      (\<forall>r \<in> set (rows ?f).
         r ''Service or Event'' \<noteq> Missing \<and> r ''Service or Event'' \<noteq> Text [])"
    by (elim conjE)
  with r1 have r4: "(\<lambda>col. Text ''Sunday LUNCH'') ''Service or Event'' \<noteq> Missing"
    by simp
  have o: "Lunch_only \<noteq> All_bookings"
    by simp
  show ?thesis
    by (intro conjI l o r1 r2 r3 r4)
qed

section \<open>The upload pipeline: missing columns and empty results\<close>

lemma set_missing_columns:
  "set (missing_columns df) = set required_columns - set (columns df)"
  by (auto simp: missing_columns_def)

lemma validate_missing:
  "validate_csv_structure df =
     (if missing_columns df \<noteq> []
      then (False, [St_error_missing_columns (missing_columns df), St_info_required_columns])
      else (True, []))"
  by (simp add: validate_csv_structure_def missing_columns_def Let_def)

lemma filter_all_length:
  "length (filter P xs) = length xs \<Longrightarrow> filter P xs = xs"
proof -
  assume "length (filter P xs) = length xs"
  then have "length (filter (\<lambda>x. \<not> P x) xs) = 0"
    using sum_length_filter_compl [of P xs] by simp
  then have "\<forall>x \<in> set xs. P x" by (simp add: filter_empty_conv)
  then show ?thesis by simp
qed

lemma getitem_missing:
  assumes "missing_columns df \<noteq> []"
  shows "\<exists>named. getitem_columns df required_columns = Inl (KeyError named) \<and>
           set named = set (missing_columns df)"
proof (cases "length (missing_columns df) = length required_columns")
  case True
  then have "missing_columns df = required_columns"
    unfolding missing_columns_def by (rule filter_all_length)
  then show ?thesis using assms True
    by (simp add: getitem_columns_def missing_columns_def [symmetric] Let_def)
next
  case False
  then show ?thesis using assms
    by (simp add: getitem_columns_def missing_columns_def [symmetric] Let_def)
qed

lemma getitem_present:
  "missing_columns df = [] \<Longrightarrow>
   getitem_columns df required_columns = Inr (df\<lparr>columns := required_columns\<rparr>)"
  by (simp add: getitem_columns_def missing_columns_def [symmetric] Let_def)

lemma handle_upload_missing:
  assumes "missing_columns df \<noteq> []"
  shows "\<exists>named. handle_upload lib df specs opt edit clicked = [St_error_reading_csv (KeyError named)] \<and>
           set named = set (missing_columns df)"
proof -
  from getitem_missing [OF assms] obtain named
    where "getitem_columns df required_columns = Inl (KeyError named)"
      "set named = set (missing_columns df)" by (elim exE conjE)
  then show ?thesis by (simp add: handle_upload_def)
qed

lemma projected_valid:
  "validate_csv_structure (df\<lparr>columns := required_columns\<rparr>) = (True, [])"
  by (simp add: validate_missing missing_columns_def)

lemma handle_upload_present:
  assumes "missing_columns df = []"
  shows "handle_upload lib df specs opt edit clicked =
     Data_preview (take 5 (rows df))
     # (case process_bookings lib (df\<lparr>columns := required_columns\<rparr>) specs opt edit clicked of
          (evs, None) \<Rightarrow> evs
        | (evs, Some e) \<Rightarrow> evs @ [St_error_reading_csv e])"
  using getitem_present [OF assms] projected_valid [of df]
  by (simp add: handle_upload_def split: prod.splits option.splits)

lemma process_bookings_empty:
  assumes "apply_filter opt df2 = Inr f" "rows f = []"
  shows "process_bookings lib df2 specs opt edit clicked =
     ([St_success_found (length (rows df2)), Filter_widget, St_info_filtered opt 0,
       St_warning_no_bookings, St_stop], None)"
  using assms by (simp add: process_bookings_def Let_def)

lemma process_bookings_raised:
  assumes "apply_filter opt df2 = Inl e"
  shows "process_bookings lib df2 specs opt edit clicked =
     ([St_success_found (length (rows df2)), Filter_widget], Some e)"
  using assms by (simp add: process_bookings_def Let_def)

lemma main_loaded:
  assumes "load_design_specs src = Inr (specs, notices)"
  shows "main lib src (Some df) opt edit clicked =
     (let shown = [Page_title] @ map Specs_notice notices @ [Upload_widget]
                  @ handle_upload lib df specs opt edit clicked
      in if St_stop \<in> set shown then Inr shown else Inr (shown @ [Instructions]))"
  using assms by (simp add: main_def)

lemma main_missing:
  assumes "load_design_specs src = Inr (specs, notices)"
    and "handle_upload lib df specs opt edit clicked = [St_error_reading_csv e]"
  shows "main lib src (Some df) opt edit clicked =
     Inr ([Page_title] @ map Specs_notice notices @
          [Upload_widget, St_error_reading_csv e, Instructions])"
  using assms(2) by (auto simp: main_loaded [OF assms(1)] Let_def)

lemma main_empty_filter:
  assumes "load_design_specs src = Inr (specs, notices)"
    and "missing_columns df = []"
    and "apply_filter opt (df\<lparr>columns := required_columns\<rparr>) = Inr f" "rows f = []"
  shows "main lib src (Some df) opt edit clicked =
     Inr ([Page_title] @ map Specs_notice notices @
          [Upload_widget, Data_preview (take 5 (rows df)),
           St_success_found (length (rows df)), Filter_widget, St_info_filtered opt 0,
           St_warning_no_bookings, St_stop])"
  using handle_upload_present [OF assms(2), of lib specs opt edit clicked]
    process_bookings_empty [OF assms(3,4), of lib specs edit clicked]
  by (simp add: main_loaded [OF assms(1)] Let_def)

lemma main_filter_raised:
  assumes "load_design_specs src = Inr (specs, notices)"
    and "missing_columns df = []"
    and "apply_filter opt (df\<lparr>columns := required_columns\<rparr>) = Inl e"
  shows "main lib src (Some df) opt edit clicked =
     Inr ([Page_title] @ map Specs_notice notices @
          [Upload_widget, Data_preview (take 5 (rows df)),
           St_success_found (length (rows df)), Filter_widget,
           St_error_reading_csv e, Instructions])"
  using handle_upload_present [OF assms(2), of lib specs opt edit clicked]
    process_bookings_raised [OF assms(3), of lib specs edit clicked]
  by (auto simp: main_loaded [OF assms(1)] Let_def)

lemma nonempty_story_pages:
  assumes "rows fdf \<noteq> []" "generate_placecards lib fdf sp = Inr story"
  shows "page_grids story \<noteq> []"
proof (cases "accepts lib sp fdf")
  case True
  have "cards_of sp fdf \<noteq> []" using assms(1) by (simp add: cards_of_def)
  moreover have "story = spec_story (cards_of sp fdf)"
    using generate_placecards_accepted [OF True] assms(2) by simp
  ultimately show ?thesis by (simp add: page_grids_spec_story chunks_Nil)
next
  case False
  then obtain e where "generate_placecards lib fdf sp = Inl e"
    using generate_placecards_refused [of lib sp fdf] by auto
  then show ?thesis using assms(2) by simp
qed

lemma generated_in_section:
  "Generated story fn \<in> set (generate_section lib fdf sp opt clicked) \<Longrightarrow>
   generate_placecards lib fdf sp = Inr story"
  by (auto simp: generate_section_def split: if_splits sum.splits)

lemma generated_in_process:
  assumes "Generated story fn \<in> set (fst (process_bookings lib df2 specs opt edit clicked))"
  shows "page_grids story \<noteq> []"
proof (cases "apply_filter opt df2")
  case (Inl e)
  then show ?thesis using assms by (simp add: process_bookings_def Let_def)
next
  case (Inr f)
  show ?thesis
  proof (cases "length (rows f) > 0 \<and> sliders_accept specs")
    case True
    then have "Generated story fn \<in> set (generate_section lib f (edit specs) opt clicked)"
      using assms Inr by (auto simp: process_bookings_def Let_def)
    then have "generate_placecards lib f (edit specs) = Inr story"
      by (rule generated_in_section)
    moreover have "rows f \<noteq> []" using True by auto
    ultimately show ?thesis by (rule nonempty_story_pages [rotated])
  next
    case False
    then show ?thesis using assms Inr by (auto simp: process_bookings_def Let_def split: if_splits)
  qed
qed

lemma generated_in_handle:
  assumes "Generated story fn \<in> set (handle_upload lib df specs opt edit clicked)"
  shows "page_grids story \<noteq> []"
proof (cases "getitem_columns df required_columns")
  case (Inl e)
  then show ?thesis using assms by (simp add: handle_upload_def)
next
  case (Inr df2)
  obtain ok shown where v: "validate_csv_structure df2 = (ok, shown)"
    by (cases "validate_csv_structure df2") auto
  have nog: "Generated story fn \<notin> set shown"
    using v by (auto simp: validate_csv_structure_def Let_def split: if_splits)
  obtain evs exn where p: "process_bookings lib df2 specs opt edit clicked = (evs, exn)"
    by (cases "process_bookings lib df2 specs opt edit clicked") auto
  show ?thesis
  proof (cases ok)
    case True
    then have "Generated story fn \<in> set evs"
      using assms Inr v nog p by (cases exn) (auto simp: handle_upload_def)
    then have "Generated story fn \<in> set (fst (process_bookings lib df2 specs opt edit clicked))"
      using p by simp
    then show ?thesis by (rule generated_in_process)
  next
    case False
    then show ?thesis using assms Inr v nog by (auto simp: handle_upload_def)
  qed
qed

lemma generated_in_main:
  assumes "main lib src up opt edit clicked = Inr evs" "Generated story fn \<in> set evs"
  shows "page_grids story \<noteq> []"
proof (cases "load_design_specs src")
  case (Inl e)
  then show ?thesis using assms by (simp add: main_def)
next
  case (Inr p)
  obtain specs notices where p: "p = (specs, notices)" by (cases p) auto
  show ?thesis
  proof (cases up)
    case None
    then show ?thesis using assms Inr p
      by (auto simp: main_def Let_def split: if_splits)
  next
    case (Some df)
    then have "Generated story fn \<in> set (handle_upload lib df specs opt edit clicked)"
      using assms Inr p by (auto simp: main_def Let_def split: if_splits)
    then show ?thesis by (rule generated_in_handle)
  qed
qed


text \<open>
  C1: \<^verbatim>\<open>validate_csv_structure\<close> accepts a frame exactly when no required column is
  missing, and otherwise reports the missing required columns, those and no others. For
  an upload that lacks a required column, \<^verbatim>\<open>main\<close> shows one error, which names
  exactly the missing columns, and nothing else of the upload: no preview, no filter, no
  generation. (In \<^verbatim>\<open>main\<close> the error comes from the selection of the required columns
  in line 463, which precedes the call of the validation and raises \<^verbatim>\<open>KeyError\<close>,
  taken by the handler of line 581.)
\<close>

theorem missing_columns_fatal:
  "set (missing_columns df) = set required_columns - set (columns df) \<and>
   (missing_columns df = [] \<longrightarrow> validate_csv_structure df = (True, [])) \<and>
   (missing_columns df \<noteq> [] \<longrightarrow>
      validate_csv_structure df =
        (False, [St_error_missing_columns (missing_columns df), St_info_required_columns]) \<and>
      (\<exists>named. set named = set (missing_columns df) \<and>
         handle_upload lib df specs opt edit clicked = [St_error_reading_csv (KeyError named)] \<and>
         (load_design_specs src = Inr (specs, notices) \<longrightarrow>
            main lib src (Some df) opt edit clicked =
              Inr ([Page_title] @ map Specs_notice notices @
                   [Upload_widget, St_error_reading_csv (KeyError named), Instructions]))))"
proof (intro conjI impI)
  show "set (missing_columns df) = set required_columns - set (columns df)"
    by (rule set_missing_columns)
  show "validate_csv_structure df = (True, [])" if "missing_columns df = []"
    using that by (simp add: validate_missing)
  show "validate_csv_structure df =
        (False, [St_error_missing_columns (missing_columns df), St_info_required_columns])"
    if "missing_columns df \<noteq> []"
    using that by (simp add: validate_missing)
  show "\<exists>named. set named = set (missing_columns df) \<and>
         handle_upload lib df specs opt edit clicked = [St_error_reading_csv (KeyError named)] \<and>
         (load_design_specs src = Inr (specs, notices) \<longrightarrow>
            main lib src (Some df) opt edit clicked =
              Inr ([Page_title] @ map Specs_notice notices @
                   [Upload_widget, St_error_reading_csv (KeyError named), Instructions]))"
    if m: "missing_columns df \<noteq> []"
  proof -
    from handle_upload_missing [OF m, of lib specs opt edit clicked] obtain named
      where n: "handle_upload lib df specs opt edit clicked = [St_error_reading_csv (KeyError named)]"
        "set named = set (missing_columns df)" by (elim exE conjE)
    have "load_design_specs src = Inr (specs, notices) \<longrightarrow>
            main lib src (Some df) opt edit clicked =
              Inr ([Page_title] @ map Specs_notice notices @
                   [Upload_widget, St_error_reading_csv (KeyError named), Instructions])"
      using main_missing [OF _ n(1)] by simp
    with n show ?thesis by (intro exI conjI)
  qed
qed

theorem missing_columns_fatal_witness:
  "missing_columns \<lparr>columns = [''Time'', ''Customer''], rows = []\<rparr> \<noteq> [] \<and>
   load_design_specs Absent = Inr (get_default_specs, [Warning_specs_not_found]) \<and>
   (\<exists>named. set named = {''Service or Event'', ''Number of People'', ''Table(s)''} \<and>
      main accepting Absent (Some \<lparr>columns = [''Time'', ''Customer''], rows = []\<rparr>)
          Lunch_only (\<lambda>d. d) True =
        Inr [Page_title, Specs_notice Warning_specs_not_found, Upload_widget,
             St_error_reading_csv (KeyError named), Instructions])"
proof -
  let ?df = "\<lparr>columns = [''Time'', ''Customer''], rows = []\<rparr>"
  have m: "missing_columns ?df = [''Service or Event'', ''Number of People'', ''Table(s)'']"
    by (simp add: missing_columns_def required_columns_def)
  then have m0: "missing_columns ?df \<noteq> []" by simp
  have l: "load_design_specs Absent = Inr (get_default_specs, [Warning_specs_not_found])"
    by (simp add: load_design_specs_def open_and_load_def)
  note t = missing_columns_fatal [of ?df accepting get_default_specs Lunch_only "\<lambda>d. d" True Absent
      "[Warning_specs_not_found]"]
  from t have "missing_columns ?df \<noteq> [] \<longrightarrow>
      validate_csv_structure ?df =
        (False, [St_error_missing_columns (missing_columns ?df), St_info_required_columns]) \<and>
      (\<exists>named. set named = set (missing_columns ?df) \<and>
         handle_upload accepting ?df get_default_specs Lunch_only (\<lambda>d. d) True
           = [St_error_reading_csv (KeyError named)] \<and>
         (load_design_specs Absent = Inr (get_default_specs, [Warning_specs_not_found]) \<longrightarrow>
            main accepting Absent (Some ?df) Lunch_only (\<lambda>d. d) True =
              Inr ([Page_title] @ map Specs_notice [Warning_specs_not_found] @
                   [Upload_widget, St_error_reading_csv (KeyError named), Instructions])))"
    by (elim conjE)
  with m0 have "\<exists>named. set named = set (missing_columns ?df) \<and>
         handle_upload accepting ?df get_default_specs Lunch_only (\<lambda>d. d) True
           = [St_error_reading_csv (KeyError named)] \<and>
         (load_design_specs Absent = Inr (get_default_specs, [Warning_specs_not_found]) \<longrightarrow>
            main accepting Absent (Some ?df) Lunch_only (\<lambda>d. d) True =
              Inr ([Page_title] @ map Specs_notice [Warning_specs_not_found] @
                   [Upload_widget, St_error_reading_csv (KeyError named), Instructions]))"
    by (elim impE conjE)
  then obtain named where n: "set named = set (missing_columns ?df)"
    "load_design_specs Absent = Inr (get_default_specs, [Warning_specs_not_found]) \<longrightarrow>
            main accepting Absent (Some ?df) Lunch_only (\<lambda>d. d) True =
              Inr ([Page_title] @ map Specs_notice [Warning_specs_not_found] @
                   [Upload_widget, St_error_reading_csv (KeyError named), Instructions])"
    by (elim exE conjE)
  from n(2) l have "main accepting Absent (Some ?df) Lunch_only (\<lambda>d. d) True =
        Inr [Page_title, Specs_notice Warning_specs_not_found, Upload_widget,
             St_error_reading_csv (KeyError named), Instructions]"
    by simp
  moreover have "set named = {''Service or Event'', ''Number of People'', ''Table(s)''}"
    using n(1) unfolding m by simp
  ultimately have "\<exists>named. set named = {''Service or Event'', ''Number of People'', ''Table(s)''} \<and>
      main accepting Absent (Some ?df) Lunch_only (\<lambda>d. d) True =
        Inr [Page_title, Specs_notice Warning_specs_not_found, Upload_widget,
             St_error_reading_csv (KeyError named), Instructions]"
    by (intro exI conjI)
  with m0 l show ?thesis by (intro conjI)
qed


text \<open>
  C7 at a frame of one record whose category is missing, with the lunch filter: no
  record matches, but the run does not show the warning that no bookings were found; the
  accessor \<^verbatim>\<open>.str\<close> of line 485 raises \<^verbatim>\<open>AttributeError\<close>, and the handler of line
  581 shows it as an error of reading the file. Whenever the filter returns and keeps no
  record, the run shows the counts and the warning, shows no error, generates nothing and
  stops. In every run of \<^verbatim>\<open>main\<close>, a generated document has at least one page.
\<close>

theorem empty_filter_stops:
  "main lib Absent (Some \<lparr>columns = required_columns, rows = [\<lambda>col. Missing]\<rparr>)
       Lunch_only edit clicked =
     Inr [Page_title, Specs_notice Warning_specs_not_found, Upload_widget,
          Data_preview [\<lambda>col. Missing], St_success_found 1, Filter_widget,
          St_error_reading_csv AttributeError, Instructions] \<and>
   filter (category_matches ''lunch'') [\<lambda>col. Missing] = [] \<and>
   (load_design_specs src = Inr (specs, notices) \<and> missing_columns df = [] \<and>
    apply_filter opt (df\<lparr>columns := required_columns\<rparr>) = Inr f \<and> rows f = [] \<longrightarrow>
      main lib src (Some df) opt edit clicked =
        Inr ([Page_title] @ map Specs_notice notices @
             [Upload_widget, Data_preview (take 5 (rows df)),
              St_success_found (length (rows df)), Filter_widget, St_info_filtered opt 0,
              St_warning_no_bookings, St_stop])) \<and>
   (load_design_specs src = Inr (specs, notices) \<and> missing_columns df = [] \<and>
    apply_filter opt (df\<lparr>columns := required_columns\<rparr>) = Inl e \<longrightarrow>
      e = AttributeError \<and>
      main lib src (Some df) opt edit clicked =
        Inr ([Page_title] @ map Specs_notice notices @
             [Upload_widget, Data_preview (take 5 (rows df)),
              St_success_found (length (rows df)), Filter_widget,
              St_error_reading_csv AttributeError, Instructions])) \<and>
   (main lib2 src2 up opt2 edit2 clicked2 = Inr evs \<and> Generated story fn \<in> set evs \<longrightarrow>
      page_grids story \<noteq> [])"
proof -
  let ?df = "\<lparr>columns = required_columns, rows = [\<lambda>col. Missing]\<rparr>"
  have l: "load_design_specs Absent = Inr (get_default_specs, [Warning_specs_not_found])"
    by (simp add: load_design_specs_def open_and_load_def)
  have m: "missing_columns ?df = []"
    by (simp add: missing_columns_def)
  have a: "apply_filter Lunch_only (?df\<lparr>columns := required_columns\<rparr>) = Inl AttributeError"
    by (simp add: apply_filter_eq pd_isna_def)
  have b: "main lib Absent (Some ?df) Lunch_only edit clicked =
     Inr [Page_title, Specs_notice Warning_specs_not_found, Upload_widget,
          Data_preview [\<lambda>col. Missing], St_success_found 1, Filter_widget,
          St_error_reading_csv AttributeError, Instructions]"
    using main_filter_raised [OF l m a, of lib edit clicked] by simp
  have n: "filter (category_matches ''lunch'') [\<lambda>col. Missing] = []"
    by (simp add: category_matches_def)
  have c: "load_design_specs src = Inr (specs, notices) \<and> missing_columns df = [] \<and>
    apply_filter opt (df\<lparr>columns := required_columns\<rparr>) = Inr f \<and> rows f = [] \<longrightarrow>
      main lib src (Some df) opt edit clicked =
        Inr ([Page_title] @ map Specs_notice notices @
             [Upload_widget, Data_preview (take 5 (rows df)),
              St_success_found (length (rows df)), Filter_widget, St_info_filtered opt 0,
              St_warning_no_bookings, St_stop])"
    using main_empty_filter [of src specs notices df opt f lib edit clicked] by simp
  have d: "load_design_specs src = Inr (specs, notices) \<and> missing_columns df = [] \<and>
    apply_filter opt (df\<lparr>columns := required_columns\<rparr>) = Inl e \<longrightarrow>
      e = AttributeError \<and>
      main lib src (Some df) opt edit clicked =
        Inr ([Page_title] @ map Specs_notice notices @
             [Upload_widget, Data_preview (take 5 (rows df)),
              St_success_found (length (rows df)), Filter_widget,
              St_error_reading_csv AttributeError, Instructions])"
    using main_filter_raised [of src specs notices df opt e lib edit clicked]
      apply_filter_error [of opt "df\<lparr>columns := required_columns\<rparr>" e]
    by auto
  have g: "main lib2 src2 up opt2 edit2 clicked2 = Inr evs \<and> Generated story fn \<in> set evs \<longrightarrow>
      page_grids story \<noteq> []"
    using generated_in_main [of lib2 src2 up opt2 edit2 clicked2 evs story fn] by simp
  show ?thesis
    by (intro conjI b n c d g)
qed

theorem empty_filter_stops_witness:
  "apply_filter Lunch_only \<lparr>columns = required_columns, rows = [\<lambda>col. Text ''Dinner'']\<rparr>
     = Inr \<lparr>columns = required_columns, rows = []\<rparr> \<and>
   main accepting Absent (Some \<lparr>columns = required_columns, rows = [\<lambda>col. Text ''Dinner'']\<rparr>)
       Lunch_only (\<lambda>d. d) True =
     Inr [Page_title, Specs_notice Warning_specs_not_found, Upload_widget,
          Data_preview [\<lambda>col. Text ''Dinner''], St_success_found 1, Filter_widget,
          St_info_filtered Lunch_only 0, St_warning_no_bookings, St_stop] \<and>
   apply_filter Dinner_only \<lparr>columns = required_columns, rows = [\<lambda>col. Missing, \<lambda>col. Missing]\<rparr>
     = Inl AttributeError \<and>
   main accepting Absent
       (Some \<lparr>columns = required_columns, rows = [\<lambda>col. Missing, \<lambda>col. Missing]\<rparr>)
       Dinner_only (\<lambda>d. d) True =
     Inr [Page_title, Specs_notice Warning_specs_not_found, Upload_widget,
          Data_preview [\<lambda>col. Missing, \<lambda>col. Missing], St_success_found 2, Filter_widget,
          St_error_reading_csv AttributeError, Instructions] \<and>
   (\<exists>evs story.
      main accepting Absent
        (Some \<lparr>columns = required_columns, rows = [\<lambda>col. Text ''Dinner'']\<rparr>)
        All_bookings (\<lambda>d. d) True = Inr evs \<and>
      Generated story ''brewvino_placecards_all_services.pdf'' \<in> set evs \<and>
      page_grids story \<noteq> [])"
proof -
  let ?df = "\<lparr>columns = required_columns, rows = [\<lambda>col. Text ''Dinner'']\<rparr>"
  let ?f = "\<lparr>columns = required_columns, rows = [] :: row list\<rparr>"
  let ?nodf = "\<lparr>columns = required_columns, rows = [\<lambda>col. Missing, \<lambda>col. Missing]\<rparr>"
  have l: "load_design_specs Absent = Inr (get_default_specs, [Warning_specs_not_found])"
    by (simp add: load_design_specs_def open_and_load_def)
  have m: "missing_columns ?df = []" "missing_columns ?nodf = []"
    by (simp_all add: missing_columns_def)
  have "\<not> service_mask ''lunch'' (Text ''Dinner'')"
    by code_simp
  then have f: "apply_filter Lunch_only ?df = Inr ?f"
    by (simp add: apply_filter_def filter_service_def str_accessor_def and_then_def pd_isna_def)
  have f': "apply_filter Lunch_only (?df\<lparr>columns := required_columns\<rparr>) = Inr ?f" "rows ?f = []"
    using f by simp_all
  have x: "apply_filter Dinner_only ?nodf = Inl AttributeError"
    by (simp add: apply_filter_def filter_service_def str_accessor_def and_then_def pd_isna_def)
  have x': "apply_filter Dinner_only (?nodf\<lparr>columns := required_columns\<rparr>) = Inl AttributeError"
    using x by simp
  let ?story = "spec_story (cards_of get_default_specs ?df)"
  let ?evs = "[Page_title, Specs_notice Warning_specs_not_found, Upload_widget,
          Data_preview [\<lambda>col. Text ''Dinner''], St_success_found 1, Filter_widget,
          St_info_filtered All_bookings 1, Filtered_preview [\<lambda>col. Text ''Dinner''],
          Design_settings get_default_specs,
          Generated ?story ''brewvino_placecards_all_services.pdf'', Instructions]"
  note t = empty_filter_stops [of accepting "\<lambda>d. d" True Absent get_default_specs
      "[Warning_specs_not_found]" ?df Lunch_only ?f AttributeError accepting Absent "Some ?df"
      All_bookings "\<lambda>d. d" True ?evs ?story "''brewvino_placecards_all_services.pdf''"]
  from t have "load_design_specs Absent = Inr (get_default_specs, [Warning_specs_not_found]) \<and>
    missing_columns ?df = [] \<and>
    apply_filter Lunch_only (?df\<lparr>columns := required_columns\<rparr>) = Inr ?f \<and> rows ?f = [] \<longrightarrow>
      main accepting Absent (Some ?df) Lunch_only (\<lambda>d. d) True =
        Inr ([Page_title] @ map Specs_notice [Warning_specs_not_found] @
             [Upload_widget, Data_preview (take 5 (rows ?df)),
              St_success_found (length (rows ?df)), Filter_widget, St_info_filtered Lunch_only 0,
              St_warning_no_bookings, St_stop])"
    by (elim conjE)
  with l m(1) f' have a: "main accepting Absent (Some ?df) Lunch_only (\<lambda>d. d) True =
     Inr [Page_title, Specs_notice Warning_specs_not_found, Upload_widget,
          Data_preview [\<lambda>col. Text ''Dinner''], St_success_found 1, Filter_widget,
          St_info_filtered Lunch_only 0, St_warning_no_bookings, St_stop]"
    by simp
  note u = empty_filter_stops [of accepting "\<lambda>d. d" True Absent get_default_specs
      "[Warning_specs_not_found]" ?nodf Dinner_only ?f AttributeError accepting Absent "Some ?df"
      All_bookings "\<lambda>d. d" True ?evs ?story "''brewvino_placecards_all_services.pdf''"]
  from u have "load_design_specs Absent = Inr (get_default_specs, [Warning_specs_not_found]) \<and>
    missing_columns ?nodf = [] \<and>
    apply_filter Dinner_only (?nodf\<lparr>columns := required_columns\<rparr>) = Inl AttributeError \<longrightarrow>
      AttributeError = AttributeError \<and>
      main accepting Absent (Some ?nodf) Dinner_only (\<lambda>d. d) True =
        Inr ([Page_title] @ map Specs_notice [Warning_specs_not_found] @
             [Upload_widget, Data_preview (take 5 (rows ?nodf)),
              St_success_found (length (rows ?nodf)), Filter_widget,
              St_error_reading_csv AttributeError, Instructions])"
    by (elim conjE)
  with l m(2) x' have b: "main accepting Absent (Some ?nodf) Dinner_only (\<lambda>d. d) True =
     Inr [Page_title, Specs_notice Warning_specs_not_found, Upload_widget,
          Data_preview [\<lambda>col. Missing, \<lambda>col. Missing], St_success_found 2, Filter_widget,
          St_error_reading_csv AttributeError, Instructions]"
    by simp
  have g: "generate_placecards accepting ?df get_default_specs = Inr ?story"
    using accepting_accepts by (rule generate_placecards_accepted)
  have s: "sliders_accept get_default_specs"
    by (simp add: sliders_accept_def get_default_specs_def)
  have p: "process_bookings accepting ?df get_default_specs
      All_bookings (\<lambda>d. d) True =
     ([St_success_found 1, Filter_widget,
          St_info_filtered All_bookings 1, Filtered_preview [\<lambda>col. Text ''Dinner''],
          Design_settings get_default_specs,
          Generated ?story ''brewvino_placecards_all_services.pdf''], None)"
    using g s by (simp add: process_bookings_def apply_filter_def
        generate_section_def pdf_filename_def Let_def)
  have e: "main accepting Absent (Some ?df) All_bookings (\<lambda>d. d) True = Inr ?evs"
    using handle_upload_present [OF m(1), of accepting get_default_specs All_bookings "\<lambda>d. d" True]
    by (simp add: main_loaded [OF l] p Let_def)
  have i: "Generated ?story ''brewvino_placecards_all_services.pdf'' \<in> set ?evs" by simp
  from t have "main accepting Absent (Some ?df) All_bookings (\<lambda>d. d) True = Inr ?evs \<and>
      Generated ?story ''brewvino_placecards_all_services.pdf'' \<in> set ?evs \<longrightarrow>
      page_grids ?story \<noteq> []"
    by (elim conjE)
  with e i have pg: "page_grids ?story \<noteq> []"
    by (elim impE) (intro conjI)
  from e i pg have ex: "\<exists>evs story.
      main accepting Absent (Some ?df) All_bookings (\<lambda>d. d) True = Inr evs \<and>
      Generated story ''brewvino_placecards_all_services.pdf'' \<in> set evs \<and>
      page_grids story \<noteq> []"
    by (intro exI conjI)
  show ?thesis
    by (intro conjI f a x b ex)
qed

end
